theory Spec2Isabelle
  imports Main "HOL-Library.Word"
begin

unbundle bit_operations_syntax

section \<open>Machine data\<close>

type_synonym u8 = "8 word"
type_synonym u16 = "16 word"
type_synonym u32 = "32 word"

text \<open>
  \<open>icmp_checksum\<close> reads the buffer through a \<open>uint16_t *\<close> and \<open>icmp_build_echo\<close> stores
  \<open>hdr->checksum\<close> as a \<open>uint16_t\<close>: both depend on the byte order of the host. The byte
  order is a parameter of the model, and every result below holds for both orders.
\<close>

datatype endian = Little_Endian | Big_Endian

text \<open>The \<open>uint16_t\<close> found at two consecutive bytes, \<open>b0\<close> at the lower address.\<close>

definition load16 :: "endian \<Rightarrow> u8 \<Rightarrow> u8 \<Rightarrow> u16" where
  "load16 e b0 b1 =
     (case e of
        Little_Endian \<Rightarrow> ucast b0 OR push_bit 8 (ucast b1)
      | Big_Endian \<Rightarrow> push_bit 8 (ucast b0) OR ucast b1)"

text \<open>The two bytes a \<open>uint16_t\<close> occupies in memory, lower address first.\<close>

definition store16 :: "endian \<Rightarrow> u16 \<Rightarrow> u8 list" where
  "store16 e w =
     (case e of
        Little_Endian \<Rightarrow> [ucast w, ucast (drop_bit 8 w)]
      | Big_Endian \<Rightarrow> [ucast (drop_bit 8 w), ucast w])"

text \<open>\<open>htons\<close> of \<open>arpa/inet.h\<close>: swaps the two bytes on a little-endian host.\<close>

definition htons :: "endian \<Rightarrow> u16 \<Rightarrow> u16" where
  "htons e w =
     (case e of
        Little_Endian \<Rightarrow> push_bit 8 w OR drop_bit 8 w
      | Big_Endian \<Rightarrow> w)"

text \<open>Writing \<open>bs\<close> into a buffer at byte offset \<open>off\<close> (\<open>memset\<close>, \<open>memcpy\<close>, a field store).\<close>

definition poke :: "nat \<Rightarrow> u8 list \<Rightarrow> u8 list \<Rightarrow> u8 list" where
  "poke off bs buf = take off buf @ bs @ drop (off + length bs) buf"

section \<open>ICMP codec (src/tracer/icmp.c)\<close>

text \<open>
  Modelled from the spec: the declarations of \<open>netinet/ip_icmp.h\<close> and \<open>netinet/ip.h\<close>, which
  the repository uses and does not contain. The spec gives the ICMP header as 8 bytes
  (type, code, checksum, identifier, sequence), type 8 for Echo Request, and the IPv4 header
  length as the header-length field in 32-bit words times 4; a minimal IPv4 header
  (\<open>sizeof(struct iphdr)\<close>) is 20 bytes, \<open>ihl\<close> is the low nibble of its first byte, and
  Echo Reply is type 0.
\<close>

definition ICMP_ECHO :: u8 where "ICMP_ECHO = 8"
definition ICMP_ECHOREPLY :: int where "ICMP_ECHOREPLY = 0"
definition sizeof_icmphdr :: nat where "sizeof_icmphdr = 8"
definition sizeof_iphdr :: nat where "sizeof_iphdr = 20"

definition ihl :: "u8 list \<Rightarrow> nat" where
  "ihl buf = unat (hd buf AND 0x0F)"

subsection \<open>icmp_checksum\<close>

text \<open>
  The first loop and the leftover byte: \<open>while(len > 1) { sum += *data++; len -= 2; }\<close>, then
  \<open>*(uint8_t *)&last = *(const uint8_t *)data; sum += last\<close>. The accumulator is a
  \<open>uint32_t\<close> and wraps.
\<close>

fun sum_words :: "endian \<Rightarrow> u8 list \<Rightarrow> u32 \<Rightarrow> u32" where
  "sum_words e (b0 # b1 # rest) acc = sum_words e rest (acc + ucast (load16 e b0 b1))"
| "sum_words e [b0] acc = acc + ucast (load16 e b0 0)"
| "sum_words e [] acc = acc"

text \<open>The second loop: \<open>while(sum >> 16) sum = (sum & 0xFFFF) + (sum >> 16);\<close>\<close>

function fold_carry :: "u32 \<Rightarrow> u32" where
  "fold_carry s =
     (if drop_bit 16 s \<noteq> 0 then fold_carry ((s AND 0xFFFF) + drop_bit 16 s) else s)"
  by pat_completeness auto

lemma and_ffff: "unat ((x::u32) AND 0xFFFF) = unat x mod 65536"
proof -
  have m: "(0xFFFF :: u32) = mask 16" by (simp add: mask_eq_exp_minus_1)
  have "x AND mask 16 = take_bit 16 x" by (simp add: take_bit_eq_mask)
  then have "unat (x AND mask 16) = take_bit 16 (unat x)" by (simp add: unsigned_take_bit_eq)
  then have "unat (x AND mask 16) = unat x mod 2 ^ 16" by (simp add: take_bit_eq_mod)
  then show ?thesis by (simp add: m)
qed

lemma drop16: "unat (drop_bit 16 (x::u32)) = unat x div 65536"
  by (simp add: unat_drop_bit_eq drop_bit_eq_div unat_div)

lemma mod_div_bound: "(n::nat) < 4294967296 \<Longrightarrow> n mod 65536 + n div 65536 < 4294967296"
proof -
  assume a: "n < 4294967296"
  have "n mod 65536 < 65536" by simp
  moreover have "n div 65536 < 65536" using a by (simp add: div_less_iff_less_mult)
  ultimately show ?thesis by linarith
qed

lemma unat_u32_less: "unat (x::u32) < 4294967296"
  using unsigned_less [of x] by simp

lemma fold_step_unat:
  "unat (((x::u32) AND 0xFFFF) + drop_bit 16 x) = unat x mod 65536 + unat x div 65536"
proof -
  have "unat x mod 65536 + unat x div 65536 < 4294967296"
    using unat_u32_less by (rule mod_div_bound)
  then show ?thesis
    by (simp add: unat_word_ariths and_ffff drop16)
qed

lemma mod_div_less: "(n::nat) div 65536 \<noteq> 0 \<Longrightarrow> n mod 65536 + n div 65536 < n"
proof -
  assume "n div 65536 \<noteq> 0"
  then have "n div 65536 < 65536 * (n div 65536)" by simp
  moreover have "n = 65536 * (n div 65536) + n mod 65536" by simp
  ultimately show ?thesis by linarith
qed

lemma drop16_nonzero: "drop_bit 16 (x::u32) \<noteq> 0 \<Longrightarrow> unat x div 65536 \<noteq> 0"
proof -
  assume "drop_bit 16 x \<noteq> 0"
  then have "unat (drop_bit 16 x) \<noteq> 0" by (simp add: unat_eq_0)
  then show ?thesis by (simp add: drop16)
qed

lemma fold_decr:
  "drop_bit 16 (x::u32) \<noteq> 0 \<Longrightarrow> unat ((x AND 0xFFFF) + drop_bit 16 x) < unat x"
  unfolding fold_step_unat by (rule mod_div_less) (rule drop16_nonzero)

termination fold_carry
  by (relation "measure unat") (simp_all add: fold_decr)

declare fold_carry.simps [simp del]

text \<open>\<open>return (uint16_t)(~sum);\<close>\<close>

definition icmp_checksum :: "endian \<Rightarrow> u8 list \<Rightarrow> u16" where
  "icmp_checksum e buf = ucast (NOT (fold_carry (sum_words e buf 0)))"

subsection \<open>icmp_build_echo\<close>

text \<open>
  The C function has no capacity argument: a caller's buffer that is too small is
  overrun. The model takes the buffers as byte lists whose length is their capacity and
  returns \<open>Out_Of_Bounds\<close> where the C code would read or write past one of them (undefined
  behaviour in C); \<open>Null_Pointer\<close> is the \<open>return -1\<close> of the initial check. A pointer
  argument is an option, \<open>None\<close> for \<open>NULL\<close>. \<open>size_t\<close> is 64 bits wide.
\<close>

datatype c_error = Null_Pointer | Out_Of_Bounds

definition icmp_build_echo ::
  "endian \<Rightarrow> u16 \<Rightarrow> u16 \<Rightarrow> u8 list option \<Rightarrow> nat \<Rightarrow> u8 list option \<Rightarrow> nat option
     \<Rightarrow> c_error + (u8 list \<times> nat)" where
  "icmp_build_echo e ident seq payload payload_len out out_len =
     (case out of
        None \<Rightarrow> Inl Null_Pointer
      | Some buf \<Rightarrow>
          if out_len = None then Inl Null_Pointer
          else
            let total_len = (sizeof_icmphdr + payload_len) mod 2 ^ 64 in
            if length buf < sizeof_icmphdr then Inl Out_Of_Bounds
            else
              let b1 = poke 0 (replicate sizeof_icmphdr 0) buf;
                  b2 = b1[0 := ICMP_ECHO];
                  b3 = b2[1 := 0];
                  b4 = poke 4 (store16 e (htons e ident)) b3;
                  b5 = poke 6 (store16 e (htons e seq)) b4
              in
                if payload_len > 0 \<and> payload \<noteq> None
                     \<and> (length (the payload) < payload_len
                          \<or> length buf < sizeof_icmphdr + payload_len)
                then Inl Out_Of_Bounds
                else
                  let b6 = (if payload_len > 0 \<and> payload \<noteq> None
                            then poke sizeof_icmphdr (take payload_len (the payload)) b5
                            else b5);
                      b7 = poke 2 (store16 e 0) b6
                  in
                    if length buf < total_len then Inl Out_Of_Bounds
                    else
                      let b8 = poke 2 (store16 e (icmp_checksum e (take total_len b7))) b7
                      in Inr (b8, total_len))"

subsection \<open>icmp_parse_response\<close>

text \<open>
  The result is the returned \<open>int\<close> and the value of \<open>*out_type\<close> afterwards; \<open>out_type\<close>
  is \<open>None\<close> for a \<open>NULL\<close> pointer and otherwise holds the value the caller's variable had.
  \<open>len\<close> is the length of the byte list. \<open>expected_ip\<close> is unused by the code.
\<close>

definition icmp_parse_response ::
  "u8 list option \<Rightarrow> string \<Rightarrow> int option \<Rightarrow> int \<times> int option" where
  "icmp_parse_response packet expected_ip out_type =
     (case packet of
        None \<Rightarrow> (-1, out_type)
      | Some buf \<Rightarrow>
          if out_type = None then (-1, out_type)
          else if length buf < sizeof_iphdr then (-1, Some (-1))
          else
            let iphdr_len = ihl buf * 4 in
              if length buf < iphdr_len + sizeof_icmphdr then (-1, Some (-1))
              else (0, Some (uint (buf ! iphdr_len))))"

subsection \<open>Notions for stating the properties of the codec\<close>

text \<open>The bytes of a payload argument: none for a \<open>NULL\<close> pointer.\<close>

definition payload_bytes :: "u8 list option \<Rightarrow> u8 list" where
  "payload_bytes payload = (case payload of None \<Rightarrow> [] | Some p \<Rightarrow> p)"

text \<open>
  The 8 bytes of \<open>struct icmphdr\<close> as \<open>icmp_build_echo\<close> leaves them for a checksum \<open>ck\<close>:
  type, code, the checksum in host order, identifier and sequence in network order.
\<close>

definition echo_header :: "endian \<Rightarrow> u16 \<Rightarrow> u16 \<Rightarrow> u16 \<Rightarrow> u8 list" where
  "echo_header e ck ident seq =
     [ICMP_ECHO, 0] @ store16 e ck @
     [ucast (drop_bit 8 ident), ucast ident, ucast (drop_bit 8 seq), ucast seq]"

text \<open>
  The checksum in the words of the spec, over natural numbers and with no accumulator
  width: the 16-bit words of the buffer, a trailing odd byte padded with zero, are summed;
  the carry above bit 16 is added back into the low 16 bits until none remains; the result
  is complemented.
\<close>

fun words16 :: "endian \<Rightarrow> u8 list \<Rightarrow> nat list" where
  "words16 e (b0 # b1 # rest) = unat (load16 e b0 b1) # words16 e rest"
| "words16 e [b0] = [unat (load16 e b0 0)]"
| "words16 e [] = []"

function end_around_carry :: "nat \<Rightarrow> nat" where
  "end_around_carry n =
     (if n div 65536 \<noteq> 0 then end_around_carry (n mod 65536 + n div 65536) else n)"
  by pat_completeness auto

termination
  by (relation "measure id") (simp_all add: mod_div_less)

declare end_around_carry.simps [simp del]

definition rfc1071_checksum :: "endian \<Rightarrow> u8 list \<Rightarrow> nat" where
  "rfc1071_checksum e bs = 65535 - end_around_carry (sum_list (words16 e bs))"

text \<open>\<open>hdr->checksum\<close> of a packet, and the packet with that field set to zero.\<close>

definition checksum_field :: "endian \<Rightarrow> u8 list \<Rightarrow> u16" where
  "checksum_field e pkt = load16 e (pkt ! 2) (pkt ! 3)"

definition zero_checksum_field :: "u8 list \<Rightarrow> u8 list" where
  "zero_checksum_field pkt = pkt[2 := 0, 3 := 0]"

section \<open>Socket primitives (net.c, src/unnamed/part_004)\<close>

text \<open>
  System calls are the environment of the model: each function takes what the calls it makes
  return (and the \<open>errno\<close> a failing call sets) and returns what the caller of the C function
  can observe. What the code prints or does to a socket is recorded as a list of events.
\<close>

text \<open>
  \<open>Stderr\<close> is a line printed with \<open>fprintf(stderr, ...)\<close>, \<open>Perror s e\<close> a call of
  \<open>perror(s)\<close> with \<open>errno = e\<close>, \<open>Gai_Error host status\<close> the line \<open>net_resolve\<close> prints
  with \<open>gai_strerror(status)\<close>. \<open>Set_Ttl\<close> and \<open>Send_To\<close> are the calls of \<open>setsockopt\<close> and
  \<open>sendto\<close>, with the TTL and the bytes handed over, whether or not the call succeeds.
\<close>

datatype event =
    Stderr string
  | Perror string int
  | Gai_Error string int
  | Socket_Opened int
  | Set_Ttl int int
  | Send_To int "u8 list"
  | Socket_Closed int

text \<open>
  Modelled from the spec: the \<open>errno\<close> values of the platform's \<open>errno.h\<close>, which the
  repository uses and does not contain; \<open>EPERM\<close> is the spec's "operation not permitted"
  signal. The values are those of Linux.
\<close>

definition EPERM :: int where "EPERM = 1"

definition EINPROGRESS :: int where "EINPROGRESS = 115"

definition ECONNREFUSED :: int where "ECONNREFUSED = 111"

definition EMFILE :: int where "EMFILE = 24"

subsection \<open>net_resolve\<close>

text \<open>
  \<open>status\<close> is what \<open>getaddrinfo\<close> returns. The resolved address itself is opaque to the
  properties below and is left out.
\<close>

definition net_resolve :: "int \<Rightarrow> string \<Rightarrow> int \<times> event list" where
  "net_resolve status host' =
     (if status \<noteq> 0 then (-1, [Gai_Error host' status]) else (0, []))"

subsection \<open>net_tcp_connect\<close>

record tcp_calls =
  socket_ret :: int
  socket_errno :: int
  getfl_ret :: int
  getfl_errno :: int
  setfl_ret :: int
  setfl_errno :: int
  connect_ret :: int
  connect_errno :: int
  select_ret :: int
  select_errno :: int
  getsockopt_ret :: int
  getsockopt_errno :: int
  so_error :: int

text \<open>
  The result is the returned \<open>int\<close>, the value of \<open>errno\<close> when the function returns
  (\<open>errno0\<close> is its value on entry; a call that succeeds leaves it alone, as do \<open>close\<close> and
  \<open>perror\<close>) and the events.
\<close>

definition net_tcp_connect :: "tcp_calls \<Rightarrow> int \<Rightarrow> int \<times> int \<times> event list" where
  "net_tcp_connect sys errno0 =
     (let sockfd = socket_ret sys in
      if sockfd < 0 then (-1, socket_errno sys, [Perror ''socket'' (socket_errno sys)])
      else
        let flags = getfl_ret sys in
        if flags < 0
        then (-1, getfl_errno sys,
              [Socket_Opened sockfd, Perror ''fcntl F_GETFL'' (getfl_errno sys), Socket_Closed sockfd])
        else if setfl_ret sys < 0
        then (-1, setfl_errno sys,
              [Socket_Opened sockfd, Perror ''fcntl F_SETFL'' (setfl_errno sys), Socket_Closed sockfd])
        else
          let result = connect_ret sys;
              errno1 = (if result < 0 then connect_errno sys else errno0)
          in
            if result = 0 then (sockfd, errno1, [Socket_Opened sockfd])
            else if errno1 \<noteq> EINPROGRESS
            then (-1, errno1, [Socket_Opened sockfd, Socket_Closed sockfd])
            else
              let result = select_ret sys;
                  errno2 = (if result < 0 then select_errno sys else errno1)
              in
                if result \<le> 0 then (-1, errno2, [Socket_Opened sockfd, Socket_Closed sockfd])
                else if getsockopt_ret sys < 0
                then (-1, getsockopt_errno sys, [Socket_Opened sockfd, Socket_Closed sockfd])
                else if so_error sys \<noteq> 0
                then (-1, errno2, [Socket_Opened sockfd, Socket_Closed sockfd])
                else (sockfd, errno2, [Socket_Opened sockfd]))"

subsection \<open>net_set_ttl\<close>

definition net_set_ttl :: "int \<Rightarrow> int \<Rightarrow> int \<Rightarrow> int \<Rightarrow> int \<times> event list" where
  "net_set_ttl sockfd ttl setsockopt_ret setsockopt_errno =
     (if setsockopt_ret < 0
      then (-1, [Set_Ttl sockfd ttl, Perror ''setsockopt IP_TTL'' setsockopt_errno])
      else (0, [Set_Ttl sockfd ttl]))"

subsection \<open>net_icmp_raw_socket\<close>

text \<open>\<open>sock_ret\<close> and \<open>sock_errno\<close> are the result of \<open>socket(AF_INET, SOCK_RAW, IPPROTO_ICMP)\<close>.\<close>

definition net_icmp_raw_socket :: "int \<Rightarrow> int \<Rightarrow> int \<times> event list" where
  "net_icmp_raw_socket sock_ret sock_errno =
     (let sockfd = sock_ret in
      if sockfd < 0
      then (if sock_errno = EPERM
            then (-1, [Stderr ''Error: ICMP raw socket requires root privileges'',
                       Stderr ''       Run with: sudo ./wirefish --trace ...''])
            else (-1, [Perror ''socket IPPROTO_ICMP'' sock_errno]))
      else (sockfd, [Socket_Opened sockfd]))"

section \<open>Traceroute engine (tracer.c, src/unnamed/part_001)\<close>

datatype cli_mode = MODE_NONE | MODE_SCAN | MODE_TRACE | MODE_MONITOR

record CommandLine =
  show_help :: bool
  json :: bool
  csv :: bool
  target :: string
  iface :: string
  ports_from :: int
  ports_to :: int
  ttl_start :: int
  ttl_max :: int
  interval_ms :: int
  mode :: cli_mode

record Hop =
  hop :: int
  host :: string
  ip :: string
  rtt_ms :: int
  timeout :: bool

text \<open>
  \<open>rows\<close> is \<open>None\<close> for a \<open>NULL\<close> pointer; otherwise it holds the entries written so far,
  \<open>cap\<close> being the number of entries allocated.
\<close>

record TraceRoute =
  rows :: "Hop list option"
  len :: nat
  cap :: nat

definition ICMP_ID :: u16 where "ICMP_ID = 0x1234"

definition INT_MAX :: int where "INT_MAX = 2147483647"

text \<open>What one iteration of the loop gets from the system, for the TTL it probes.\<close>

record probe_io =
  setsockopt_ret :: int
  setsockopt_errno :: int
  pkt_stack :: "u8 list"
  tstart :: int
  sendto_ret :: int
  sendto_errno :: int
  select_reply :: int
  recvfrom :: "(u8 list \<times> string) option"
  tend :: int

record trace_env =
  host_order :: endian
  getaddrinfo_status :: int
  raw_socket_ret :: int
  raw_socket_errno :: int
  probe :: "int \<Rightarrow> probe_io"
  realloc_ok :: "nat \<Rightarrow> bool"

text \<open>
  \<open>tracer_append\<close>: \<open>realloc\<close> may fail and return \<open>NULL\<close>, which the code stores and then
  writes through; the model returns \<open>None\<close> there (the process crashes).
\<close>

definition tracer_append :: "(nat \<Rightarrow> bool) \<Rightarrow> TraceRoute \<Rightarrow> Hop \<Rightarrow> TraceRoute option" where
  "tracer_append alloc route h =
     (let route1 =
            (if len route = cap route
             then let newcap = (if cap route \<noteq> 0 then cap route * 2 else 16)
                  in route\<lparr>rows := (if alloc newcap
                                     then Some (case rows route of None \<Rightarrow> [] | Some xs \<Rightarrow> xs)
                                     else None),
                            cap := newcap\<rparr>
             else route)
      in case rows route1 of
           None \<Rightarrow> None
         | Some xs \<Rightarrow> Some (route1\<lparr>rows := Some (take (len route1) xs @ [h]),
                                  len := len route1 + 1\<rparr>))"

text \<open>An array of \<open>n\<close> bytes on the stack, not initialised: \<open>junk\<close> is what it holds.\<close>

definition stack_buffer :: "nat \<Rightarrow> u8 list \<Rightarrow> u8 list" where
  "stack_buffer n junk = take n (junk @ replicate n 0)"

text \<open>\<open>(int)(tend - tstart)\<close>: a \<open>long\<close> cut to 32 bits.\<close>

definition long_to_int :: "int \<Rightarrow> int" where
  "long_to_int x = sint (word_of_int x :: 32 word)"

text \<open>
  \<open>int icmp_type = 0; icmp_parse_response(recvbuf, n, h.ip, &icmp_type);\<close> on the \<open>n\<close> bytes
  received into \<open>char recvbuf[512]\<close>.
\<close>

definition parsed_type :: "u8 list \<Rightarrow> string \<Rightarrow> int" where
  "parsed_type data addr =
     (case snd (icmp_parse_response (Some (take 512 data)) addr (Some 0)) of
        None \<Rightarrow> 0
      | Some t \<Rightarrow> t)"

datatype probe_result =
    Probe_Failed "event list"
  | Probe_Next TraceRoute "event list"
  | Probe_Done TraceRoute "event list"
  | Probe_Crash

text \<open>
  The body of the \<open>for\<close> loop: \<open>Probe_Failed\<close> is \<open>close(sockfd); return -1\<close>,
  \<open>Probe_Next\<close> is \<open>continue\<close> or the end of the body, \<open>Probe_Done\<close> is \<open>break\<close>. The
  events are those of this iteration.
\<close>

definition tracer_probe :: "trace_env \<Rightarrow> int \<Rightarrow> int \<Rightarrow> TraceRoute \<Rightarrow> probe_result" where
  "tracer_probe env sockfd ttl route =
     (let io = probe env ttl;
          ev1 = snd (net_set_ttl sockfd ttl (setsockopt_ret io) (setsockopt_errno io))
      in case icmp_build_echo (host_order env) ICMP_ID (word_of_int ttl) None 0
                (Some (stack_buffer 64 (pkt_stack io))) (Some 0) of
           Inl err \<Rightarrow>
             Probe_Failed (ev1 @ [Stderr ''Error: ICMP packet build failed'', Socket_Closed sockfd])
         | Inr (pkt, pktlen) \<Rightarrow>
             let ev2 = ev1 @ [Send_To sockfd (take pktlen pkt)] in
             if sendto_ret io < 0
             then Probe_Failed (ev2 @ [Perror ''sendto'' (sendto_errno io), Socket_Closed sockfd])
             else
               let h = \<lparr>hop = ttl, host = [], ip = [], rtt_ms = 0, timeout = False\<rparr>;
                   lost = h\<lparr>timeout := True, ip := ''*'', host := ''?'', rtt_ms := -1\<rparr>
               in
                 if select_reply io = 0
                 then (case tracer_append (realloc_ok env) route lost of
                         None \<Rightarrow> Probe_Crash
                       | Some r \<Rightarrow> Probe_Next r ev2)
                 else
                   (case recvfrom io of
                      None \<Rightarrow>
                        (case tracer_append (realloc_ok env) route lost of
                           None \<Rightarrow> Probe_Crash
                         | Some r \<Rightarrow> Probe_Next r ev2)
                    | Some (data, addr) \<Rightarrow>
                        let h1 = h\<lparr>ip := addr\<rparr>;
                            icmp_type = parsed_type data (ip h1);
                            h2 = h1\<lparr>timeout := False,
                                    rtt_ms := long_to_int (tend io - tstart io),
                                    host := ip h1\<rparr>
                        in (case tracer_append (realloc_ok env) route h2 of
                              None \<Rightarrow> Probe_Crash
                            | Some r \<Rightarrow>
                                if icmp_type = ICMP_ECHOREPLY then Probe_Done r ev2
                                else Probe_Next r ev2)))"

text \<open>
  \<open>ttl++\<close>. At \<open>INT_MAX\<close> the increment overflows the signed \<open>int\<close>; the compiled code wraps
  to \<open>INT_MIN\<close>, and so does the model.
\<close>

definition INT_MIN :: int where "INT_MIN = - 2147483648"

definition ttl_next :: "int \<Rightarrow> int" where
  "ttl_next ttl = (if ttl = INT_MAX then INT_MIN else ttl + 1)"

text \<open>
  The \<open>for\<close> loop. With \<open>ttl_max = INT_MAX\<close> the test \<open>ttl <= cfg->ttl_max\<close> never fails and
  the loop may run forever: the result is \<open>None\<close> when the loop does not return, which is also
  the case when \<open>tracer_append\<close> crashes.
\<close>

partial_function (option) tracer_loop ::
  "trace_env \<Rightarrow> CommandLine \<Rightarrow> int \<Rightarrow> int \<Rightarrow> TraceRoute \<Rightarrow> event list
     \<Rightarrow> (int \<times> TraceRoute \<times> event list) option" where
  "tracer_loop env cfg sockfd ttl route log =
     (if ttl \<le> ttl_max cfg
      then (case tracer_probe env sockfd ttl route of
              Probe_Failed ev \<Rightarrow> Some (-1, route, log @ ev)
            | Probe_Crash \<Rightarrow> None
            | Probe_Done r ev \<Rightarrow> Some (0, r, log @ ev @ [Socket_Closed sockfd])
            | Probe_Next r ev \<Rightarrow> tracer_loop env cfg sockfd (ttl_next ttl) r (log @ ev))
      else Some (0, route, log @ [Socket_Closed sockfd]))"

definition tracer_run ::
  "trace_env \<Rightarrow> CommandLine \<Rightarrow> TraceRoute \<Rightarrow> (int \<times> TraceRoute \<times> event list) option" where
  "tracer_run env cfg out0 =
     (let out = out0\<lparr>rows := None, len := 0, cap := 0\<rparr>;
          (resolved, ev0) = net_resolve (getaddrinfo_status env) (target cfg)
      in if resolved \<noteq> 0
         then Some (-1, out,
                ev0 @ [Stderr (''Error: Failed to resolve target '' @ [CHR 0x27] @ target cfg @ [CHR 0x27])])
         else
           let (sockfd, ev1) = net_icmp_raw_socket (raw_socket_ret env) (raw_socket_errno env)
           in if sockfd < 0 then Some (-1, out, ev0 @ ev1)
              else tracer_loop env cfg sockfd (ttl_start cfg) out (ev0 @ ev1))"

section \<open>Notions for stating the properties\<close>

subsection \<open>Connection attempts\<close>

text \<open>A connection attempt that \<open>connect\<close> leaves in progress, on a non-blocking socket.\<close>

definition in_progress :: "tcp_calls \<Rightarrow> bool" where
  "in_progress sys \<longleftrightarrow>
     0 \<le> socket_ret sys \<and> 0 \<le> getfl_ret sys \<and> 0 \<le> setfl_ret sys
     \<and> connect_ret sys < 0 \<and> connect_errno sys = EINPROGRESS"

subsection \<open>Hop lists\<close>

text \<open>
  The hops a table holds; a table is well formed when \<open>len\<close> counts the entries written
  and does not exceed \<open>cap\<close>, as after the \<open>memset\<close> and after every \<open>tracer_append\<close>.
\<close>

definition empty_route :: TraceRoute where
  "empty_route = \<lparr>rows = None, len = 0, cap = 0\<rparr>"

definition hops :: "TraceRoute \<Rightarrow> Hop list" where
  "hops route = (case rows route of None \<Rightarrow> [] | Some xs \<Rightarrow> take (len route) xs)"

definition wf_route :: "TraceRoute \<Rightarrow> bool" where
  "wf_route route =
     (case rows route of
        None \<Rightarrow> len route = 0 \<and> cap route = 0
      | Some xs \<Rightarrow> length xs = len route \<and> len route \<le> cap route)"

text \<open>
  What the loop body records for a TTL, read off the environment: the hop it appends (the
  hop of a timeout, when \<open>select\<close> returns 0 or \<open>recvfrom\<close> fails) and the ICMP type it
  parses from the reply, if there is one.
\<close>

definition lost_hop :: "int \<Rightarrow> Hop" where
  "lost_hop ttl = \<lparr>hop = ttl, host = ''?'', ip = ''*'', rtt_ms = -1, timeout = True\<rparr>"

definition hop_at :: "trace_env \<Rightarrow> int \<Rightarrow> Hop" where
  "hop_at env ttl =
     (let io = probe env ttl in
      if select_reply io = 0 then lost_hop ttl
      else case recvfrom io of
             None \<Rightarrow> lost_hop ttl
           | Some (data, addr) \<Rightarrow>
               \<lparr>hop = ttl, host = addr, ip = addr,
                rtt_ms = long_to_int (tend io - tstart io), timeout = False\<rparr>)"

definition reply_type :: "trace_env \<Rightarrow> int \<Rightarrow> int option" where
  "reply_type env ttl =
     (let io = probe env ttl in
      if select_reply io = 0 then None
      else case recvfrom io of
             None \<Rightarrow> None
           | Some (data, addr) \<Rightarrow> Some (parsed_type data addr))"

text \<open>The TTL of the \<open>i\<close>-th iteration of a loop that starts at \<open>ttl\<close>.\<close>

definition ttl_at :: "int \<Rightarrow> nat \<Rightarrow> int" where
  "ttl_at ttl i = (ttl_next ^^ i) ttl"

definition trace_hops :: "trace_env \<Rightarrow> int \<Rightarrow> nat \<Rightarrow> Hop list" where
  "trace_hops env ttl k = map (\<lambda>i. hop_at env (ttl_at ttl i)) [0..<k]"

text \<open>The probe at \<open>j\<close> neither aborts the run nor ends it.\<close>

definition passes :: "trace_env \<Rightarrow> int \<Rightarrow> bool" where
  "passes env j \<longleftrightarrow> 0 \<le> sendto_ret (probe env j) \<and> reply_type env j \<noteq> Some ICMP_ECHOREPLY"

subsection \<open>Events of a run\<close>

text \<open>
  The Echo Request built for a TTL, the events of one iteration and of \<open>k\<close> iterations,
  and the events of an iteration whose \<open>sendto\<close> fails.
\<close>

definition echo_request :: "endian \<Rightarrow> int \<Rightarrow> u8 list" where
  "echo_request e ttl =
     echo_header e (icmp_checksum e (echo_header e 0 ICMP_ID (word_of_int ttl)))
       ICMP_ID (word_of_int ttl)"

definition probe_events :: "trace_env \<Rightarrow> int \<Rightarrow> int \<Rightarrow> event list" where
  "probe_events env sockfd ttl =
     snd (net_set_ttl sockfd ttl (setsockopt_ret (probe env ttl)) (setsockopt_errno (probe env ttl)))
       @ [Send_To sockfd (echo_request (host_order env) ttl)]"

definition probe_log :: "trace_env \<Rightarrow> int \<Rightarrow> int \<Rightarrow> nat \<Rightarrow> event list" where
  "probe_log env sockfd ttl k = concat (map (\<lambda>i. probe_events env sockfd (ttl_at ttl i)) [0..<k])"

definition sendto_error :: "trace_env \<Rightarrow> int \<Rightarrow> int \<Rightarrow> event list" where
  "sendto_error env sockfd ttl =
     probe_events env sockfd ttl
       @ [Perror ''sendto'' (sendto_errno (probe env ttl)), Socket_Closed sockfd]"

text \<open>The packets handed to \<open>sendto\<close> and the TTLs handed to \<open>setsockopt\<close>, in order.\<close>

fun sent_packets :: "event list \<Rightarrow> u8 list list" where
  "sent_packets [] = []"
| "sent_packets (Send_To sockfd pkt # es) = pkt # sent_packets es"
| "sent_packets (ev # es) = sent_packets es"

fun ttls_set :: "event list \<Rightarrow> int list" where
  "ttls_set [] = []"
| "ttls_set (Set_Ttl sockfd ttl # es) = ttl # ttls_set es"
| "ttls_set (ev # es) = ttls_set es"

text \<open>The two lines \<open>net_icmp_raw_socket\<close> prints on \<open>EPERM\<close>.\<close>

definition privilege_hint :: "event list" where
  "privilege_hint =
     [Stderr ''Error: ICMP raw socket requires root privileges'',
      Stderr ''       Run with: sudo ./wirefish --trace ...'']"

text \<open>
  What holds when the loop, started at \<open>ttl\<close> with \<open>route\<close> and \<open>log\<close>, returns \<open>ret\<close>,
  \<open>route'\<close> and \<open>log'\<close> after \<open>k\<close> completed iterations.
\<close>

definition loop_post ::
  "trace_env \<Rightarrow> CommandLine \<Rightarrow> int \<Rightarrow> int \<Rightarrow> TraceRoute \<Rightarrow> event list \<Rightarrow> nat
     \<Rightarrow> int \<Rightarrow> TraceRoute \<Rightarrow> event list \<Rightarrow> bool" where
  "loop_post env cfg sockfd ttl route log k ret route' log' \<longleftrightarrow>
     hops route' = hops route @ trace_hops env ttl k
     \<and> wf_route route'
     \<and> (\<forall>i<k. ttl_at ttl i \<le> ttl_max cfg \<and> 0 \<le> sendto_ret (probe env (ttl_at ttl i)))
     \<and> (\<forall>i. Suc i < k \<longrightarrow> reply_type env (ttl_at ttl i) \<noteq> Some ICMP_ECHOREPLY)
     \<and> (ret = 0 \<and> log' = log @ probe_log env sockfd ttl k @ [Socket_Closed sockfd]
            \<and> (0 < k \<and> reply_type env (ttl_at ttl (k - 1)) = Some ICMP_ECHOREPLY
                 \<or> ttl_max cfg < ttl_at ttl k)
         \<or> ret = -1 \<and> ttl_at ttl k \<le> ttl_max cfg \<and> sendto_ret (probe env (ttl_at ttl k)) < 0
            \<and> log' = log @ probe_log env sockfd ttl k @ sendto_error env sockfd (ttl_at ttl k))"

section \<open>Concrete inputs\<close>

text \<open>
  Two sets of system-call results for \<open>net_tcp_connect\<close>: the wait elapses with no event;
  the socket becomes writable with the pending error \<open>ECONNREFUSED\<close>.
\<close>

definition timed_out_calls :: tcp_calls where
  "timed_out_calls =
     \<lparr>socket_ret = 3, socket_errno = 0, getfl_ret = 2, getfl_errno = 0,
      setfl_ret = 0, setfl_errno = 0, connect_ret = -1, connect_errno = EINPROGRESS,
      select_ret = 0, select_errno = 0, getsockopt_ret = 0, getsockopt_errno = 0,
      so_error = 0\<rparr>"

definition refused_calls :: tcp_calls where
  "refused_calls =
     \<lparr>socket_ret = 3, socket_errno = 0, getfl_ret = 2, getfl_errno = 0,
      setfl_ret = 0, setfl_errno = 0, connect_ret = -1, connect_errno = EINPROGRESS,
      select_ret = 1, select_errno = 0, getsockopt_ret = 0, getsockopt_errno = 0,
      so_error = ECONNREFUSED\<rparr>"

text \<open>
  An environment where the target resolves, the raw socket opens as descriptor 3 and no
  probe is answered; a configuration with the TTL range \<open>a\<close> to \<open>b\<close>.
\<close>

definition idle_probe :: probe_io where
  "idle_probe =
     \<lparr>setsockopt_ret = 0, setsockopt_errno = 0, pkt_stack = [], tstart = 1000,
      sendto_ret = 8, sendto_errno = 0, select_reply = 0, recvfrom = None, tend = 2000\<rparr>"

definition quiet_env :: trace_env where
  "quiet_env =
     \<lparr>host_order = Little_Endian, getaddrinfo_status = 0, raw_socket_ret = 3,
      raw_socket_errno = 0, probe = (\<lambda>ttl. idle_probe), realloc_ok = (\<lambda>n. True)\<rparr>"

definition trace_cfg :: "int \<Rightarrow> int \<Rightarrow> CommandLine" where
  "trace_cfg a b =
     \<lparr>show_help = False, json = False, csv = False, target = ''127.0.0.1'', iface = [],
      ports_from = 1, ports_to = 1024, ttl_start = a, ttl_max = b, interval_ms = 1000,
      mode = MODE_TRACE\<rparr>"

text \<open>
  A run with TTLs 1 to 3: nothing answers the probe at TTL 1, the probe at TTL 2 is answered
  by an Echo Reply (a 20-byte IPv4 header, then ICMP type 0) after 5 ms.
\<close>

definition echo_reply_datagram :: "u8 list" where
  "echo_reply_datagram = (0x45 # replicate 19 0) @ (0 # replicate 7 0)"

definition reply_probe :: probe_io where
  "reply_probe =
     idle_probe\<lparr>select_reply := 1, recvfrom := Some (echo_reply_datagram, ''10.0.0.2''),
                tstart := 1000, tend := 1005\<rparr>"

definition reply_env :: trace_env where
  "reply_env = quiet_env\<lparr>probe := (\<lambda>ttl. if ttl = 2 then reply_probe else idle_probe)\<rparr>"

definition reply_hop :: Hop where
  "reply_hop = \<lparr>hop = 2, host = ''10.0.0.2'', ip = ''10.0.0.2'', rtt_ms = 5, timeout = False\<rparr>"

text \<open>
  A payload of 131072 bytes \<open>0xFF\<close> and an output buffer that holds exactly the packet built
  from it: the sum of the 16-bit words of that packet does not fit the \<open>uint32_t\<close>
  accumulator of \<open>icmp_checksum\<close>.
\<close>

definition big_payload :: "u8 list" where
  "big_payload = replicate 131072 0xFF"

definition big_buffer :: "u8 list" where
  "big_buffer = replicate 131080 0"

text \<open>
  An environment where the probe at TTL \<open>INT_MIN\<close> is answered by an Echo Reply and no other
  probe is answered, and the hop list that the run over the range \<open>INT_MAX\<close> to \<open>INT_MAX\<close>
  returns there.
\<close>

definition wrap_env :: trace_env where
  "wrap_env =
     quiet_env\<lparr>probe := (\<lambda>ttl. if ttl = - 2147483648 then reply_probe else idle_probe)\<rparr>"

definition wrap_route :: TraceRoute where
  "wrap_route =
     \<lparr>rows = Some [lost_hop 2147483647,
                     \<lparr>hop = - 2147483648, host = ''10.0.0.2'', ip = ''10.0.0.2'', rtt_ms = 5,
                      timeout = False\<rparr>],
      len = 2, cap = 16\<rparr>"

text \<open>An environment where \<open>sendto\<close> fails at TTL 2.\<close>

definition send_fail_env :: trace_env where
  "send_fail_env =
     quiet_env\<lparr>probe := (\<lambda>ttl. if ttl = 2 then idle_probe\<lparr>sendto_ret := -1, sendto_errno := 101\<rparr>
                               else idle_probe)\<rparr>"

section \<open>Folding the carries\<close>

lemma mod_div_cong: "((n::nat) mod 65536 + n div 65536) mod 65535 = n mod 65535"
proof -
  have "n = 65536 * (n div 65536) + n mod 65536" by simp
  also have "\<dots> = 65535 * (n div 65536) + (n mod 65536 + n div 65536)" by simp
  finally have "n mod 65535 = (65535 * (n div 65536) + (n mod 65536 + n div 65536)) mod 65535"
    by simp
  then show ?thesis by (simp only: mod_mult_self4)
qed

lemma fold_carry_lt: "unat (fold_carry x) < 65536"
proof (induction x rule: fold_carry.induct)
  case (1 s)
  show ?case
  proof (cases "drop_bit 16 s = 0")
    case True
    then have "unat s div 65536 = 0" using drop16 [of s] by simp
    then have "unat s < 65536" by (simp add: div_eq_0_iff)
    with True show ?thesis by (simp add: fold_carry.simps [of s])
  next
    case False
    with 1 show ?thesis by (simp add: fold_carry.simps [of s])
  qed
qed

lemma fold_carry_mod: "unat (fold_carry x) mod 65535 = unat x mod 65535"
proof (induction x rule: fold_carry.induct)
  case (1 s)
  show ?case
  proof (cases "drop_bit 16 s = 0")
    case True
    then show ?thesis by (simp add: fold_carry.simps [of s])
  next
    case False
    with 1 have "unat (fold_carry s) mod 65535 = unat ((s AND 0xFFFF) + drop_bit 16 s) mod 65535"
      by (simp add: fold_carry.simps [of s])
    then show ?thesis by (simp only: fold_step_unat mod_div_cong)
  qed
qed

lemma fold_carry_le: "unat (fold_carry x) \<le> unat x"
proof (induction x rule: fold_carry.induct)
  case (1 s)
  show ?case
  proof (cases "drop_bit 16 s = 0")
    case True
    then show ?thesis by (simp add: fold_carry.simps [of s])
  next
    case False
    with 1 have "unat (fold_carry s) \<le> unat ((s AND 0xFFFF) + drop_bit 16 s)"
      by (simp add: fold_carry.simps [of s])
    with fold_decr [OF False] show ?thesis by linarith
  qed
qed

lemma fold_carry_zero: "fold_carry x = 0 \<longleftrightarrow> x = 0"
proof (induction x rule: fold_carry.induct)
  case (1 s)
  show ?case
  proof (cases "drop_bit 16 s = 0")
    case True
    then show ?thesis by (simp add: fold_carry.simps [of s])
  next
    case False
    then have d: "unat s div 65536 \<noteq> 0" by (rule drop16_nonzero)
    then have "unat s mod 65536 + unat s div 65536 \<noteq> 0" by simp
    then have "(s AND 0xFFFF) + drop_bit 16 s \<noteq> 0"
      using fold_step_unat [of s] by (metis unat_eq_0)
    moreover have "s \<noteq> 0" using False by auto
    ultimately show ?thesis using 1 False by (simp add: fold_carry.simps [of s])
  qed
qed

section \<open>Byte order\<close>

lemma load16_store16_LE: "ucast (ucast (w::u16) :: u8) OR push_bit 8 (ucast (ucast (drop_bit 8 w) :: u8)) = w"
  by (rule bit_word_eqI) (auto simp add: bit_simps)

lemma load16_store16_BE: "push_bit 8 (ucast (ucast (drop_bit 8 (w::u16)) :: u8)) OR ucast (ucast w :: u8) = w"
  by (rule bit_word_eqI) (auto simp add: bit_simps)

lemma load16_store16: "store16 e w = [a, b] \<Longrightarrow> load16 e a b = w"
  by (cases e) (auto simp add: store16_def load16_def load16_store16_LE load16_store16_BE)

lemma load16_network: "load16 Big_Endian (ucast (drop_bit 8 w)) (ucast w) = w"
  by (rule load16_store16) (simp add: store16_def)

lemma load16_zero: "load16 e 0 0 = 0"
  by (cases e) (simp_all add: load16_def)

lemma store16_zero: "store16 e 0 = [0, 0]"
  by (cases e) (simp_all add: store16_def)

lemma length_store16: "length (store16 e w) = 2"
  by (cases e) (simp_all add: store16_def)

lemma htons_bytes_LE: "ucast (push_bit 8 (w::u16) OR drop_bit 8 w) = (ucast (drop_bit 8 w) :: u8)"
  by (rule bit_word_eqI) (auto simp add: bit_simps)

lemma htons_bytes_LE2: "ucast (drop_bit 8 (push_bit 8 (w::u16) OR drop_bit 8 w)) = (ucast w :: u8)"
  by (rule bit_word_eqI) (auto simp add: bit_simps)

lemma store16_htons: "store16 e (htons e w) = [ucast (drop_bit 8 w), ucast w]"
proof (cases e)
  case Little_Endian
  then show ?thesis
    unfolding store16_def htons_def by (simp only: endian.case htons_bytes_LE htons_bytes_LE2)
next
  case Big_Endian
  then show ?thesis by (simp add: store16_def htons_def)
qed

lemma sum_words_acc: "sum_words e bs acc = acc + sum_words e bs 0"
proof (induction bs arbitrary: acc rule: induct_list012)
  case (3 b0 b1 rest)
  have "sum_words e (b0 # b1 # rest) acc = sum_words e rest (acc + ucast (load16 e b0 b1))" by simp
  also have "\<dots> = acc + ucast (load16 e b0 b1) + sum_words e rest 0" by (rule 3)
  also have "\<dots> = acc + sum_words e rest (0 + ucast (load16 e b0 b1))"
    using 3(1) [of "0 + ucast (load16 e b0 b1)"] by (simp add: add.assoc)
  finally show ?case by simp
qed simp_all

lemma ucast_not_16: "(ucast (NOT (x::u32)) :: u16) = NOT (ucast x)"
  by (rule bit_word_eqI) (auto simp add: bit_simps)

section \<open>Building an Echo Request\<close>

lemma length8_conv:
  "length (t :: 'a list) = 8 \<Longrightarrow> \<exists>h0 h1 h2 h3 h4 h5 h6 h7. t = [h0, h1, h2, h3, h4, h5, h6, h7]"
  by (auto simp add: eval_nat_numeral length_Suc_conv)

lemma list8:
  assumes "8 \<le> length (buf :: 'a list)"
  obtains h0 h1 h2 h3 h4 h5 h6 h7 r where "buf = h0 # h1 # h2 # h3 # h4 # h5 # h6 # h7 # r"
proof -
  define t where "t = take 8 buf"
  have "length t = 8" using assms by (simp add: t_def)
  then obtain h0 h1 h2 h3 h4 h5 h6 h7 where "t = [h0, h1, h2, h3, h4, h5, h6, h7]"
    using length8_conv by blast
  then have "buf = h0 # h1 # h2 # h3 # h4 # h5 # h6 # h7 # drop 8 buf"
    using append_take_drop_id [of 8 buf] by (simp add: t_def)
  then show ?thesis by (rule that)
qed

lemma length_echo_header: "length (echo_header e ck ident seq) = 8"
  by (simp add: echo_header_def length_store16)

lemma replicate8: "replicate 8 (x::'a) = [x, x, x, x, x, x, x, x]"
  by (simp add: numeral_eq_Suc)

lemma icmp_build_echo_valid:
  assumes pl: "payload_len = length (payload_bytes payload)"
    and len: "8 + payload_len \<le> length buf" and cap: "length buf < 2 ^ 64"
  shows "icmp_build_echo e ident seq payload payload_len (Some buf) (Some n) =
           Inr (echo_header e (icmp_checksum e (echo_header e 0 ident seq @ payload_bytes payload))
                  ident seq @ payload_bytes payload @ drop (8 + payload_len) buf,
                8 + payload_len)"
proof -
  let ?H = "echo_header e 0 ident seq"
  define p where "p = payload_bytes payload"
  from len have "8 \<le> length buf" by simp
  then obtain h0 h1 h2 h3 h4 h5 h6 h7 r
    where buf: "buf = h0 # h1 # h2 # h3 # h4 # h5 # h6 # h7 # r" by (rule list8)
  with len pl have r: "length p \<le> length r" by (simp add: p_def)
  have lenH: "length ?H = 8" by (rule length_echo_header)
  have tot: "(8 + payload_len) mod 2 ^ 64 = 8 + payload_len"
    using len cap by simp
  have hdr: "poke 6 (store16 e (htons e seq)) (poke 4 (store16 e (htons e ident))
               ((poke 0 (replicate 8 0) buf)[0 := ICMP_ECHO, 1 := 0])) = ?H @ r"
    by (simp add: buf poke_def store16_htons replicate8 echo_header_def store16_zero)
  have pay: "(if 0 < payload_len \<and> payload \<noteq> None
              then poke 8 (take payload_len (the payload)) (?H @ r) else ?H @ r)
             = ?H @ p @ drop (length p) r"
    using pl by (cases payload) (simp_all add: poke_def lenH p_def payload_bytes_def)
  have ck: "poke 2 (store16 e c) (?H @ p @ drop (length p) r)
            = echo_header e c ident seq @ p @ drop (length p) r" for c
    by (simp add: poke_def echo_header_def store16_zero length_store16)
  have tk: "take (8 + payload_len) (?H @ p @ drop (length p) r) = ?H @ p"
    using take_append [of "8 + length p" ?H "p @ drop (length p) r"] pl
    by (simp add: lenH p_def)
  have "drop 8 buf = r" by (simp add: buf)
  then have dr: "drop (8 + payload_len) buf = drop (length p) r"
    using drop_drop [of "length p" 8 buf] pl by (simp add: add.commute p_def)
  have guard: "\<not> (0 < payload_len \<and> payload \<noteq> None \<and>
                  (length (the payload) < payload_len \<or> length buf < 8 + payload_len))"
    using len pl by (cases payload) (auto simp add: payload_bytes_def)
  have g2: "\<not> length buf < 8" "\<not> length buf < 8 + payload_len" using len by simp_all
  have g3: "payload_len = 0 \<or> payload = None \<or> \<not> length (the payload) < payload_len"
    using guard g2 by auto
  show ?thesis
    unfolding icmp_build_echo_def Let_def sizeof_icmphdr_def p_def [symmetric]
    apply (simp only: hdr pay ck tk tot g2 dr option.case if_False)
    using g3 apply simp
    done
qed

section \<open>The complement of the folded sum\<close>

lemma unat_not_u16: "unat (NOT (z::u16)) = 65535 - unat z"
proof -
  have "NOT z = - 1 - z" by (simp add: not_eq_complement)
  moreover have "z \<le> - 1" by simp
  ultimately have "unat (NOT z) = unat (- 1 :: u16) - unat z" by (simp only: unat_sub)
  then show ?thesis by (simp add: unsigned_minus_1_eq_mask mask_eq_exp_minus_1)
qed

lemma unat_ucast_u32_u16: "unat (y::u32) < 65536 \<Longrightarrow> unat (ucast y :: u16) = unat y"
  by (simp add: unsigned_ucast_eq take_bit_eq_mod)

lemma unat_u16_less: "unat (c::u16) < 65536"
  using unsigned_less [of c] by simp

lemma unat_ucast_u16_u32: "unat (ucast (c::u16) :: u32) = unat c"
  using unat_u16_less [of c] by (simp add: unsigned_ucast_eq take_bit_eq_mod)

lemma unat_complement:
  "unat (y::u32) < 65536 \<Longrightarrow> unat (ucast (NOT y) :: u16) = 65535 - unat y"
  by (simp add: ucast_not_16 unat_not_u16 unat_ucast_u32_u16)

lemma multiple_65535_bound:
  assumes "(d::nat) mod 65535 = 0" "d < 4294967295"
  shows "d + 65535 < 4294967296"
proof -
  from assms(1) obtain k where k: "d = 65535 * k" by auto
  with assms(2) have "k < 65537" by linarith
  with k show ?thesis by linarith
qed

lemma multiple_65535_unique:
  assumes "(g::nat) mod 65535 = 0" "g < 65536" "g \<noteq> 0"
  shows "g = 65535"
proof -
  from assms(1) obtain k where k: "g = 65535 * k" by auto
  with assms(2,3) have "k < 2" "k \<noteq> 0" by linarith+
  then have "k = 1" by simp
  with k show ?thesis by simp
qed

lemma fold_carry_complement:
  "fold_carry (x + ucast (ucast (NOT (fold_carry x)) :: u16)) = 0xFFFF"
proof -
  define s where "s = unat x"
  define f where "f = unat (fold_carry x)"
  define c :: u16 where "c = ucast (NOT (fold_carry x))"
  have f_lt: "f < 65536" unfolding f_def by (rule fold_carry_lt)
  have f_le: "f \<le> s" unfolding f_def s_def by (rule fold_carry_le)
  have f_mod: "f mod 65535 = s mod 65535" unfolding f_def s_def by (rule fold_carry_mod)
  have f_zero: "f = 0 \<longleftrightarrow> s = 0"
    unfolding f_def s_def using fold_carry_zero [of x] by (simp add: unat_eq_0)
  have s_lt: "s < 4294967296" unfolding s_def by (rule unat_u32_less)
  have c_eq: "unat c = 65535 - f"
    unfolding c_def f_def using fold_carry_lt [of x] by (rule unat_complement)
  have d_mod: "(s - f) mod 65535 = 0"
    using f_mod f_le by (metis mod_eq_dvd_iff_nat dvd_eq_mod_eq_0)
  have d_lt: "s - f < 4294967295"
  proof (cases "f = 0")
    case True
    with f_zero show ?thesis by simp
  next
    case False
    with s_lt show ?thesis by linarith
  qed
  have nowrap: "(s - f) + 65535 < 4294967296"
    using d_mod d_lt by (rule multiple_65535_bound)
  have t_eq: "s + unat c = (s - f) + 65535" using c_eq f_le f_lt by linarith
  have "unat (x + ucast c) = (s + unat c) mod 4294967296"
    by (simp add: unat_word_ariths unat_ucast_u16_u32 s_def)
  with nowrap t_eq have u: "unat (x + ucast c) = (s - f) + 65535" by simp
  have u_mod: "unat (x + ucast c) mod 65535 = 0"
    using d_mod by (simp add: u)
  have u_nz: "x + ucast c \<noteq> 0"
    using u by (auto simp add: unat_eq_0 [symmetric])
  define g where "g = unat (fold_carry (x + ucast c))"
  have "g mod 65535 = 0" unfolding g_def using fold_carry_mod [of "x + ucast c"] u_mod by simp
  moreover have "g < 65536" unfolding g_def by (rule fold_carry_lt)
  moreover have "g \<noteq> 0" unfolding g_def using u_nz fold_carry_zero [of "x + ucast c"]
    by (simp add: unat_eq_0)
  ultimately have "g = 65535" by (rule multiple_65535_unique)
  then have "fold_carry (x + ucast c) = 0xFFFF"
    unfolding g_def by (simp add: word_unat_eq_iff)
  then show ?thesis by (simp add: c_def)
qed

section \<open>Agreement with the checksum of the spec\<close>

lemma sum_words_unat:
  "unat (sum_words e bs acc) = (unat acc + sum_list (words16 e bs)) mod 4294967296"
proof (induction e bs acc rule: sum_words.induct)
  case (1 e b0 b1 rest acc)
  have "unat (acc + ucast (load16 e b0 b1)) = (unat acc + unat (load16 e b0 b1)) mod 4294967296"
    by (simp add: unat_word_ariths unat_ucast_u16_u32)
  then show ?case using 1 by (simp add: mod_add_left_eq add.assoc)
next
  case (2 e b0 acc)
  show ?case by (simp add: unat_word_ariths unat_ucast_u16_u32)
next
  case (3 e acc)
  show ?case using unat_u32_less [of acc] by simp
qed

lemma words16_bound: "sum_list (words16 e bs) \<le> 65535 * ((length bs + 1) div 2)"
proof (induction e bs rule: words16.induct)
  case (1 e b0 b1 rest)
  have "unat (load16 e b0 b1) \<le> 65535" using unat_u16_less [of "load16 e b0 b1"] by simp
  with 1 show ?case by simp
next
  case (2 e b0)
  have "unat (load16 e b0 0) \<le> 65535" using unat_u16_less [of "load16 e b0 0"] by simp
  then show ?case by simp
qed simp

lemma fold_carry_unat: "unat (fold_carry x) = end_around_carry (unat x)"
proof (induction x rule: fold_carry.induct)
  case (1 s)
  show ?case
  proof (cases "drop_bit 16 s = 0")
    case True
    then have "unat s div 65536 = 0" using drop16 [of s] by simp
    with True show ?thesis
      by (simp add: fold_carry.simps [of s] end_around_carry.simps [of "unat s"])
  next
    case False
    then have "unat s div 65536 \<noteq> 0" by (rule drop16_nonzero)
    with False 1 show ?thesis
      by (simp add: fold_carry.simps [of s] end_around_carry.simps [of "unat s"] fold_step_unat)
  qed
qed

lemma end_around_carry_lt: "end_around_carry n < 65536"
proof (induction n rule: end_around_carry.induct)
  case (1 n)
  show ?case
  proof (cases "n div 65536 = 0")
    case True
    then have "n < 65536" by (simp add: div_eq_0_iff)
    with True show ?thesis by (simp add: end_around_carry.simps [of n])
  next
    case False
    with 1 show ?thesis by (simp add: end_around_carry.simps [of n])
  qed
qed

lemma icmp_checksum_unat:
  "unat (icmp_checksum e bs)
     = 65535 - end_around_carry (sum_list (words16 e bs) mod 4294967296)"
proof -
  have "unat (fold_carry (sum_words e bs 0)) < 65536" by (rule fold_carry_lt)
  then have "unat (icmp_checksum e bs) = 65535 - unat (fold_carry (sum_words e bs 0))"
    unfolding icmp_checksum_def by (rule unat_complement)
  then show ?thesis by (simp add: fold_carry_unat sum_words_unat)
qed

lemma icmp_checksum_rfc1071:
  assumes "length bs \<le> 131072"
  shows "unat (icmp_checksum e bs) = rfc1071_checksum e bs"
proof -
  have "(length bs + 1) div 2 \<le> 65536" using assms by linarith
  then have "65535 * ((length bs + 1) div 2) \<le> 65535 * 65536" by linarith
  with words16_bound [of e bs] have "sum_list (words16 e bs) < 4294967296" by linarith
  then show ?thesis by (simp add: icmp_checksum_unat rfc1071_checksum_def)
qed

section \<open>The checksum field of a built packet\<close>

lemma echo_header_split:
  obtains a b where "store16 e c = [a, b]"
    and "echo_header e c ident seq =
           [ICMP_ECHO, 0, a, b, ucast (drop_bit 8 ident), ucast ident, ucast (drop_bit 8 seq), ucast seq]"
  by (cases e) (simp_all add: echo_header_def store16_def)

lemma checksum_field_echo: "checksum_field e (echo_header e c ident seq @ p) = c"
proof -
  obtain a b where ab: "store16 e c = [a, b]"
    and h: "echo_header e c ident seq =
           [ICMP_ECHO, 0, a, b, ucast (drop_bit 8 ident), ucast ident, ucast (drop_bit 8 seq), ucast seq]"
    by (rule echo_header_split)
  show ?thesis using load16_store16 [OF ab] by (simp add: checksum_field_def h)
qed

lemma zero_checksum_field_echo:
  "zero_checksum_field (echo_header e c ident seq @ p) = echo_header e 0 ident seq @ p"
proof -
  obtain a b where ab: "store16 e c = [a, b]"
    and h: "echo_header e c ident seq =
           [ICMP_ECHO, 0, a, b, ucast (drop_bit 8 ident), ucast ident, ucast (drop_bit 8 seq), ucast seq]"
    by (rule echo_header_split)
  have "echo_header e 0 ident seq =
           [ICMP_ECHO, 0, 0, 0, ucast (drop_bit 8 ident), ucast ident, ucast (drop_bit 8 seq), ucast seq]"
    by (simp add: echo_header_def store16_zero)
  then show ?thesis by (simp add: zero_checksum_field_def h)
qed

lemma sum_words_echo:
  "sum_words e (echo_header e c ident seq @ p) 0
     = sum_words e (echo_header e 0 ident seq @ p) 0 + ucast c"
proof -
  obtain a b where ab: "store16 e c = [a, b]"
    and h: "echo_header e c ident seq =
           [ICMP_ECHO, 0, a, b, ucast (drop_bit 8 ident), ucast ident, ucast (drop_bit 8 seq), ucast seq]"
    by (rule echo_header_split)
  let ?rest = "[ucast (drop_bit 8 ident), ucast ident, ucast (drop_bit 8 seq), ucast seq] @ p"
  have "sum_words e (echo_header e c ident seq @ p) 0
        = sum_words e ?rest (ucast (load16 e ICMP_ECHO 0) + ucast c)"
    using load16_store16 [OF ab] by (simp add: h)
  also have "\<dots> = ucast (load16 e ICMP_ECHO 0) + ucast c + sum_words e ?rest 0"
    by (rule sum_words_acc)
  also have "\<dots> = (ucast (load16 e ICMP_ECHO 0) + sum_words e ?rest 0) + ucast c"
    by simp
  also have "ucast (load16 e ICMP_ECHO 0) + sum_words e ?rest 0
             = sum_words e ?rest (ucast (load16 e ICMP_ECHO 0))"
    by (rule sum_words_acc [symmetric])
  also have "\<dots> = sum_words e (echo_header e 0 ident seq @ p) 0"
    by (simp add: echo_header_def store16_zero load16_zero)
  finally show ?thesis .
qed

lemma icmp_checksum_echo_zero:
  "icmp_checksum e (echo_header e (icmp_checksum e (echo_header e 0 ident seq @ p)) ident seq @ p) = 0"
proof -
  let ?S = "sum_words e (echo_header e 0 ident seq @ p) 0"
  let ?c = "ucast (NOT (fold_carry ?S)) :: u16"
  have c: "icmp_checksum e (echo_header e 0 ident seq @ p) = ?c"
    by (simp only: icmp_checksum_def)
  have s: "sum_words e (echo_header e ?c ident seq @ p) 0 = ?S + ucast ?c"
    by (rule sum_words_echo)
  have "fold_carry (?S + ucast ?c) = 0xFFFF"
    by (rule fold_carry_complement)
  then have "icmp_checksum e (echo_header e ?c ident seq @ p) = ucast (NOT (0xFFFF :: u32))"
    by (simp only: icmp_checksum_def [of e "echo_header e ?c ident seq @ p"] s)
  then show ?thesis by (simp only: c) simp
qed

lemma icmp_checksum_rfc1071_sum:
  assumes "sum_list (words16 e bs) < 4294967296"
  shows "unat (icmp_checksum e bs) = rfc1071_checksum e bs"
  using assms by (simp add: icmp_checksum_unat rfc1071_checksum_def)

section \<open>A packet whose word sum exceeds 32 bits\<close>

lemma replicate_double: "replicate (2 * Suc n) b = b # b # replicate (2 * n) b"
  by simp

lemma words16_replicate:
  "sum_list (words16 e (replicate (2 * n) b)) = n * unat (load16 e b b)"
proof (induction n)
  case 0
  show ?case by simp
next
  case (Suc n)
  show ?case by (simp only: replicate_double words16.simps sum_list.Cons Suc) simp
qed

lemma words16_echo:
  "sum_list (words16 e (echo_header e c ident seq @ p))
     = unat (load16 e ICMP_ECHO 0) + unat c
       + unat (load16 e (ucast (drop_bit 8 ident)) (ucast ident))
       + unat (load16 e (ucast (drop_bit 8 seq)) (ucast seq))
       + sum_list (words16 e p)"
proof -
  obtain a b where ab: "store16 e c = [a, b]"
    and h: "echo_header e c ident seq =
           [ICMP_ECHO, 0, a, b, ucast (drop_bit 8 ident), ucast ident, ucast (drop_bit 8 seq), ucast seq]"
    by (rule echo_header_split)
  show ?thesis using load16_store16 [OF ab] by (simp add: h)
qed

lemma length_big_payload: "length big_payload = 131072"
  unfolding big_payload_def by (rule length_replicate)

lemma length_big_buffer: "length big_buffer = 131080"
  unfolding big_buffer_def by (rule length_replicate)

lemma words16_big_payload: "sum_list (words16 Big_Endian big_payload) = 4294901760"
proof -
  have n: "(131072::nat) = 2 * 65536" by simp
  have e: "big_payload = replicate (2 * 65536) 0xFF" by (simp only: big_payload_def n)
  have "sum_list (words16 Big_Endian big_payload) = 65536 * unat (load16 Big_Endian 0xFF 0xFF)"
    unfolding e by (rule words16_replicate)
  also have "load16 Big_Endian 0xFF 0xFF = 0xFFFF" by (simp add: load16_def)
  finally show ?thesis by simp
qed

lemma words16_big_packet:
  "sum_list (words16 Big_Endian (echo_header Big_Endian c 0x1234 0xFFFF @ big_payload))
     = 4294974003 + unat c"
proof -
  have "unat (load16 Big_Endian ICMP_ECHO 0) = 2048" by (simp add: load16_def ICMP_ECHO_def)
  then show ?thesis
    by (simp only: words16_echo load16_network words16_big_payload) simp
qed

lemma eac_values:
  "end_around_carry 6707 = 6707"
  "end_around_carry 4294974003 = 6708"
  "end_around_carry 4295032831 = 1"
  "end_around_carry 65535 = 65535"
  by (simp_all add: end_around_carry.simps)

lemma big_checksum:
  "icmp_checksum Big_Endian (echo_header Big_Endian 0 0x1234 0xFFFF @ big_payload) = 58828"
proof -
  have "unat (icmp_checksum Big_Endian (echo_header Big_Endian 0 0x1234 0xFFFF @ big_payload))
          = 58828"
    by (simp add: icmp_checksum_unat words16_big_packet eac_values)
  then show ?thesis by (simp add: word_unat_eq_iff)
qed

lemma big_build:
  "icmp_build_echo Big_Endian 0x1234 0xFFFF (Some big_payload) 131072 (Some big_buffer) (Some 0)
     = Inr (echo_header Big_Endian 58828 0x1234 0xFFFF @ big_payload, 131080)"
proof -
  have h1: "(131072::nat) = length (payload_bytes (Some big_payload))"
    by (simp add: payload_bytes_def length_big_payload)
  have h2: "8 + (131072::nat) \<le> length big_buffer" by (simp add: length_big_buffer)
  have h3: "length big_buffer < 2 ^ 64" by (simp add: length_big_buffer)
  have d: "drop (8 + 131072) big_buffer = []" by (simp add: length_big_buffer)
  have p: "payload_bytes (Some big_payload) = big_payload" by (simp add: payload_bytes_def)
  show ?thesis
    unfolding icmp_build_echo_valid [OF h1 h2 h3] p big_checksum d by simp
qed

lemma take_big_packet:
  "take 131080 (echo_header Big_Endian c 0x1234 0xFFFF @ big_payload)
     = echo_header Big_Endian c 0x1234 0xFFFF @ big_payload"
  by (simp add: length_echo_header length_big_payload)

section \<open>The checksum written by icmp_build_echo\<close>

text \<open>
  Claim C1, as stated, fails: on a big-endian host, for identifier \<open>0x1234\<close>, sequence number
  \<open>0xFFFF\<close> and a payload of 131072 bytes \<open>0xFF\<close>, the words of the packet with a zeroed checksum
  field sum to \<open>4294974003\<close>, which is more than \<open>2^32\<close>. The \<open>uint32_t\<close> accumulator keeps
  \<open>6707\<close>, so \<open>icmp_build_echo\<close> writes \<open>65535 - 6707 = 58828\<close>; folding the carries of the
  whole sum gives \<open>6708\<close>, so the RFC 1071 checksum is \<open>58827\<close>.
\<close>

theorem icmp_build_echo_accumulator_wraps:
  "icmp_build_echo Big_Endian 0x1234 0xFFFF (Some big_payload) 131072 (Some big_buffer) (Some 0)
     = Inr (echo_header Big_Endian 58828 0x1234 0xFFFF @ big_payload, 131080)
   \<and> unat (checksum_field Big_Endian
              (take 131080 (echo_header Big_Endian 58828 0x1234 0xFFFF @ big_payload))) = 58828
   \<and> rfc1071_checksum Big_Endian
        (zero_checksum_field
           (take 131080 (echo_header Big_Endian 58828 0x1234 0xFFFF @ big_payload))) = 58827"
proof -
  have a: "unat (checksum_field Big_Endian
              (take 131080 (echo_header Big_Endian 58828 0x1234 0xFFFF @ big_payload))) = 58828"
    by (simp only: take_big_packet checksum_field_echo) simp
  have b: "rfc1071_checksum Big_Endian
        (zero_checksum_field
           (take 131080 (echo_header Big_Endian 58828 0x1234 0xFFFF @ big_payload))) = 58827"
    by (simp only: take_big_packet zero_checksum_field_echo rfc1071_checksum_def
          words16_big_packet) (simp add: eac_values)
  from big_build a b show ?thesis by blast
qed

text \<open>
  Claim C1, amended. For every identifier, sequence number and payload (a \<open>NULL\<close> payload of
  length 0, or \<open>payload_len\<close> bytes), given an output buffer that holds the packet,
  \<open>icmp_build_echo\<close> succeeds and returns the header followed by the payload; the checksum
  field of the packet is \<open>icmp_checksum\<close> of the packet with that field zeroed. That value is
  the sum of the 16-bit words, a trailing odd byte padded with zero, held in a 32-bit
  accumulator, with the carries folded back until none remains and the result complemented.
  Whenever the sum of the words is below \<open>2^32\<close>, and so for every packet of at most 131072
  bytes (twice the largest IPv4 datagram), the value is the RFC 1071 checksum as the spec
  words it, with no accumulator width.
\<close>

theorem icmp_build_echo_checksum:
  assumes "payload_len = length (payload_bytes payload)"
    and "8 + payload_len \<le> length buf" and "length buf < 2 ^ 64"
  shows "case icmp_build_echo e ident seq payload payload_len (Some buf) (Some n) of
           Inl err \<Rightarrow> False
         | Inr (out, out_len) \<Rightarrow>
             out_len = 8 + payload_len \<and>
             drop 8 (take out_len out) = payload_bytes payload \<and>
             checksum_field e (take out_len out)
               = icmp_checksum e (zero_checksum_field (take out_len out)) \<and>
             unat (checksum_field e (take out_len out))
               = 65535 - end_around_carry
                   (sum_list (words16 e (zero_checksum_field (take out_len out))) mod 2 ^ 32) \<and>
             (sum_list (words16 e (zero_checksum_field (take out_len out))) < 2 ^ 32 \<longrightarrow>
                unat (checksum_field e (take out_len out))
                  = rfc1071_checksum e (zero_checksum_field (take out_len out))) \<and>
             (out_len \<le> 131072 \<longrightarrow>
                unat (checksum_field e (take out_len out))
                  = rfc1071_checksum e (zero_checksum_field (take out_len out)))"
proof -
  let ?p = "payload_bytes payload"
  let ?c = "icmp_checksum e (echo_header e 0 ident seq @ ?p)"
  let ?pkt = "echo_header e ?c ident seq @ ?p"
  have lp: "length ?pkt = 8 + payload_len" using assms(1) by (simp add: length_echo_header)
  have tk: "take (8 + payload_len) (echo_header e ?c ident seq @ ?p @ drop (8 + payload_len) buf)
            = ?pkt"
    using lp take_append [of "8 + payload_len" ?pkt "drop (8 + payload_len) buf"] by simp
  have d8: "drop 8 ?pkt = ?p" by (simp add: length_echo_header)
  have z: "zero_checksum_field ?pkt = echo_header e 0 ident seq @ ?p"
    by (rule zero_checksum_field_echo)
  have f: "checksum_field e ?pkt = ?c" by (rule checksum_field_echo)
  have l0: "length (echo_header e 0 ident seq @ ?p) = 8 + payload_len"
    using assms(1) by (simp add: length_echo_header)
  have r: "8 + payload_len \<le> 131072 \<Longrightarrow> unat ?c = rfc1071_checksum e (echo_header e 0 ident seq @ ?p)"
    using icmp_checksum_rfc1071 [of "echo_header e 0 ident seq @ ?p" e] l0 by simp
  have r2: "sum_list (words16 e (echo_header e 0 ident seq @ ?p)) < 2 ^ 32
            \<Longrightarrow> unat ?c = rfc1071_checksum e (echo_header e 0 ident seq @ ?p)"
    using icmp_checksum_rfc1071_sum [of e "echo_header e 0 ident seq @ ?p"] by simp
  have g: "unat ?c = 65535 - end_around_carry
             (sum_list (words16 e (echo_header e 0 ident seq @ ?p)) mod 2 ^ 32)"
    by (simp add: icmp_checksum_unat)
  show ?thesis
    unfolding icmp_build_echo_valid [OF assms]
    using r r2 g by (simp only: sum.case prod.case tk d8 z f) simp
qed

theorem icmp_build_echo_checksum_witness:
  "(3::nat) = length (payload_bytes (Some [0x61, 0x62, 0x63]))
   \<and> 8 + (3::nat) \<le> length (replicate 16 (0::u8))
   \<and> length (replicate 16 (0::u8)) < 2 ^ 64
   \<and> (\<exists>out out_len.
         icmp_build_echo Little_Endian 0x1234 1 (Some [0x61, 0x62, 0x63]) 3
             (Some (replicate 16 0)) (Some 0) = Inr (out, out_len)
         \<and> out_len = 8 + 3
         \<and> out_len \<le> 131072
         \<and> drop 8 (take out_len out) = payload_bytes (Some [0x61, 0x62, 0x63])
         \<and> checksum_field Little_Endian (take out_len out)
             = icmp_checksum Little_Endian (zero_checksum_field (take out_len out))
         \<and> unat (checksum_field Little_Endian (take out_len out))
             = 65535 - end_around_carry
                 (sum_list (words16 Little_Endian (zero_checksum_field (take out_len out)))
                    mod 2 ^ 32)
         \<and> unat (checksum_field Little_Endian (take out_len out))
             = rfc1071_checksum Little_Endian (zero_checksum_field (take out_len out)))"
proof -
  have h1: "(3::nat) = length (payload_bytes (Some [0x61, 0x62, 0x63]))"
    by (simp add: payload_bytes_def)
  have h2: "8 + (3::nat) \<le> length (replicate 16 (0::u8))" by simp
  have h3: "length (replicate 16 (0::u8)) < 2 ^ 64" by simp
  have "\<exists>out out_len.
         icmp_build_echo Little_Endian 0x1234 1 (Some [0x61, 0x62, 0x63]) 3
             (Some (replicate 16 0)) (Some 0) = Inr (out, out_len)
         \<and> out_len = 8 + 3
         \<and> out_len \<le> 131072
         \<and> drop 8 (take out_len out) = payload_bytes (Some [0x61, 0x62, 0x63])
         \<and> checksum_field Little_Endian (take out_len out)
             = icmp_checksum Little_Endian (zero_checksum_field (take out_len out))
         \<and> unat (checksum_field Little_Endian (take out_len out))
             = 65535 - end_around_carry
                 (sum_list (words16 Little_Endian (zero_checksum_field (take out_len out)))
                    mod 2 ^ 32)
         \<and> unat (checksum_field Little_Endian (take out_len out))
             = rfc1071_checksum Little_Endian (zero_checksum_field (take out_len out))"
    using icmp_build_echo_checksum [OF h1 h2 h3, of Little_Endian "0x1234" 1 0]
    by (cases "icmp_build_echo Little_Endian 0x1234 1 (Some [0x61, 0x62, 0x63]) 3
             (Some (replicate 16 0)) (Some 0)") auto
  with h1 h2 h3 show ?thesis by blast
qed

section \<open>Verifying a built packet\<close>

text \<open>
  Claim C9, as stated, fails for the RFC 1071 verification: for the packet \<open>icmp_build_echo\<close>
  returns on a big-endian host for identifier \<open>0x1234\<close>, sequence number \<open>0xFFFF\<close> and a
  payload of 131072 bytes \<open>0xFF\<close>, the words sum to \<open>4295032831\<close>, whose carries fold to \<open>1\<close>:
  the RFC 1071 checksum of the packet is \<open>65534\<close>, not 0. \<open>icmp_checksum\<close>, whose \<open>uint32_t\<close>
  accumulator keeps \<open>65535\<close> of that sum, returns 0 on it.
\<close>

theorem icmp_build_echo_fails_rfc1071:
  "icmp_build_echo Big_Endian 0x1234 0xFFFF (Some big_payload) 131072 (Some big_buffer) (Some 0)
     = Inr (echo_header Big_Endian 58828 0x1234 0xFFFF @ big_payload, 131080)
   \<and> icmp_checksum Big_Endian
        (take 131080 (echo_header Big_Endian 58828 0x1234 0xFFFF @ big_payload)) = 0
   \<and> rfc1071_checksum Big_Endian
        (take 131080 (echo_header Big_Endian 58828 0x1234 0xFFFF @ big_payload)) = 65534"
proof -
  have u: "unat (58828 :: u16) = 58828" by simp
  have "unat (icmp_checksum Big_Endian
        (take 131080 (echo_header Big_Endian 58828 0x1234 0xFFFF @ big_payload))) = 0"
    by (simp only: take_big_packet icmp_checksum_unat words16_big_packet u)
       (simp add: eac_values)
  then have a: "icmp_checksum Big_Endian
        (take 131080 (echo_header Big_Endian 58828 0x1234 0xFFFF @ big_payload)) = 0"
    by (simp add: word_unat_eq_iff)
  have b: "rfc1071_checksum Big_Endian
        (take 131080 (echo_header Big_Endian 58828 0x1234 0xFFFF @ big_payload)) = 65534"
    by (simp only: take_big_packet rfc1071_checksum_def words16_big_packet u)
       (simp add: eac_values)
  from big_build a b show ?thesis by blast
qed

text \<open>
  Claim C9, amended. For every identifier, sequence number and payload, \<open>icmp_checksum\<close> over
  the complete packet that \<open>icmp_build_echo\<close> returns, its checksum field in place, is 0 (for
  every length: when the 32-bit sum of the zeroed packet is within 65535 of wrapping, adding
  the checksum brings it to exactly \<open>2^32 - 1\<close>). Whenever the sum of the words of the packet
  is below \<open>2^32\<close>, and so for every packet of at most 131072 bytes, the packet passes the
  RFC 1071 verification as the spec words it: its RFC 1071 checksum, with no accumulator
  width, is 0.
\<close>

theorem icmp_build_echo_verifies:
  assumes "payload_len = length (payload_bytes payload)"
    and "8 + payload_len \<le> length buf" and "length buf < 2 ^ 64"
  shows "case icmp_build_echo e ident seq payload payload_len (Some buf) (Some n) of
           Inl err \<Rightarrow> False
         | Inr (out, out_len) \<Rightarrow>
             out_len = 8 + payload_len \<and>
             icmp_checksum e (take out_len out) = 0 \<and>
             (sum_list (words16 e (take out_len out)) < 2 ^ 32 \<longrightarrow>
                rfc1071_checksum e (take out_len out) = 0) \<and>
             (out_len \<le> 131072 \<longrightarrow> rfc1071_checksum e (take out_len out) = 0)"
proof -
  let ?p = "payload_bytes payload"
  let ?c = "icmp_checksum e (echo_header e 0 ident seq @ ?p)"
  let ?pkt = "echo_header e ?c ident seq @ ?p"
  have lp: "length ?pkt = 8 + payload_len" using assms(1) by (simp add: length_echo_header)
  have tk: "take (8 + payload_len) (echo_header e ?c ident seq @ ?p @ drop (8 + payload_len) buf)
            = ?pkt"
    using lp take_append [of "8 + payload_len" ?pkt "drop (8 + payload_len) buf"] by simp
  have v: "icmp_checksum e ?pkt = 0" by (rule icmp_checksum_echo_zero)
  have r: "rfc1071_checksum e ?pkt = 0" if "8 + payload_len \<le> 131072"
  proof -
    from that lp have "length ?pkt \<le> 131072" by simp
    then have "unat (icmp_checksum e ?pkt) = rfc1071_checksum e ?pkt"
      by (rule icmp_checksum_rfc1071)
    then show ?thesis by (simp only: v) simp
  qed
  have r2: "rfc1071_checksum e ?pkt = 0" if "sum_list (words16 e ?pkt) < 2 ^ 32"
  proof -
    from that have "sum_list (words16 e ?pkt) < 4294967296" by simp
    then have "unat (icmp_checksum e ?pkt) = rfc1071_checksum e ?pkt"
      by (rule icmp_checksum_rfc1071_sum)
    then show ?thesis by (simp only: v) simp
  qed
  show ?thesis
    unfolding icmp_build_echo_valid [OF assms]
    using v r r2 by (simp only: sum.case prod.case tk) simp
qed

theorem icmp_build_echo_verifies_witness:
  "(0::nat) = length (payload_bytes None)
   \<and> 8 + (0::nat) \<le> length (replicate 64 (0::u8))
   \<and> length (replicate 64 (0::u8)) < 2 ^ 64
   \<and> (\<exists>out out_len.
         icmp_build_echo Big_Endian 0x1234 7 None 0 (Some (replicate 64 0)) (Some 0)
           = Inr (out, out_len)
         \<and> out_len = 8 + 0
         \<and> out_len \<le> 131072
         \<and> icmp_checksum Big_Endian (take out_len out) = 0
         \<and> rfc1071_checksum Big_Endian (take out_len out) = 0)"
proof -
  have h1: "(0::nat) = length (payload_bytes None)" by (simp add: payload_bytes_def)
  have h2: "8 + (0::nat) \<le> length (replicate 64 (0::u8))" by simp
  have h3: "length (replicate 64 (0::u8)) < 2 ^ 64" by simp
  have "\<exists>out out_len.
         icmp_build_echo Big_Endian 0x1234 7 None 0 (Some (replicate 64 0)) (Some 0)
           = Inr (out, out_len)
         \<and> out_len = 8 + 0
         \<and> out_len \<le> 131072
         \<and> icmp_checksum Big_Endian (take out_len out) = 0
         \<and> rfc1071_checksum Big_Endian (take out_len out) = 0"
    using icmp_build_echo_verifies [OF h1 h2 h3, of Big_Endian "0x1234" 7 0]
    by (cases "icmp_build_echo Big_Endian 0x1234 7 None 0 (Some (replicate 64 0)) (Some 0)") auto
  with h1 h2 h3 show ?thesis by blast
qed

section \<open>The loop of the traceroute engine\<close>

lemma length_stack_buffer: "length (stack_buffer n junk) = n"
  by (simp add: stack_buffer_def)

lemma probe_build:
  "icmp_build_echo e ICMP_ID (word_of_int ttl) None 0 (Some (stack_buffer 64 junk)) (Some 0)
     = Inr (echo_request e ttl @ drop 8 (stack_buffer 64 junk), 8)"
  using icmp_build_echo_valid [of 0 None "stack_buffer 64 junk" e ICMP_ID "word_of_int ttl" 0]
  by (simp add: payload_bytes_def length_stack_buffer echo_request_def)

lemma length_echo_request: "length (echo_request e ttl) = 8"
  by (simp add: echo_request_def length_echo_header)

lemma tracer_probe_eq:
  "tracer_probe env sockfd ttl route =
     (if sendto_ret (probe env ttl) < 0
      then Probe_Failed (probe_events env sockfd ttl
             @ [Perror ''sendto'' (sendto_errno (probe env ttl)), Socket_Closed sockfd])
      else case tracer_append (realloc_ok env) route (hop_at env ttl) of
             None \<Rightarrow> Probe_Crash
           | Some r \<Rightarrow>
               if reply_type env ttl = Some ICMP_ECHOREPLY
               then Probe_Done r (probe_events env sockfd ttl)
               else Probe_Next r (probe_events env sockfd ttl))"
  unfolding tracer_probe_def
  by (simp add: probe_build Let_def length_echo_request probe_events_def hop_at_def
        reply_type_def lost_hop_def split: option.split)

lemma tracer_append_wf:
  assumes "tracer_append alloc route h = Some r" and "wf_route route"
  shows "wf_route r \<and> hops r = hops route @ [h]"
  using assms
  by (auto simp add: tracer_append_def wf_route_def hops_def Let_def
        split: option.splits if_splits)

lemma tracer_append_total:
  assumes "\<forall>n. alloc n" and "wf_route route"
  shows "\<exists>r. tracer_append alloc route h = Some r"
  using assms
  by (auto simp add: tracer_append_def wf_route_def Let_def split: option.splits)

lemma ttl_at_0: "ttl_at ttl 0 = ttl"
  by (simp add: ttl_at_def)

lemma ttl_at_Suc: "ttl_at ttl (Suc i) = ttl_at (ttl_next ttl) i"
  by (simp add: ttl_at_def funpow_swap1)

lemma ttl_at_Suc_right: "ttl_at ttl (Suc i) = ttl_next (ttl_at ttl i)"
  by (simp add: ttl_at_def)

lemma ttl_at_plus: "ttl + int i \<le> INT_MAX \<Longrightarrow> ttl_at ttl i = ttl + int i"
proof (induction i)
  case 0
  show ?case by (simp add: ttl_at_0)
next
  case (Suc i)
  then have "ttl_at ttl i = ttl + int i" and "ttl + int i \<noteq> INT_MAX" by simp_all
  then show ?case by (simp add: ttl_at_Suc_right ttl_next_def)
qed

lemma trace_hops_0: "trace_hops env ttl 0 = []"
  by (simp add: trace_hops_def)

lemma trace_hops_Suc:
  "trace_hops env ttl (Suc k) = hop_at env ttl # trace_hops env (ttl_next ttl) k"
  by (simp add: trace_hops_def map_upt_Suc ttl_at_0 ttl_at_Suc del: upt_Suc)

lemma probe_log_0: "probe_log env sockfd ttl 0 = []"
  by (simp add: probe_log_def)

lemma probe_log_Suc:
  "probe_log env sockfd ttl (Suc k)
     = probe_events env sockfd ttl @ probe_log env sockfd (ttl_next ttl) k"
  by (simp add: probe_log_def map_upt_Suc ttl_at_0 ttl_at_Suc del: upt_Suc)

lemma tracer_loop_cases [consumes 1, case_names finished send_failed reached continued]:
  assumes "tracer_loop env cfg sockfd ttl route log = Some res"
  obtains
    (finished) "\<not> ttl \<le> ttl_max cfg" "res = (0, route, log @ [Socket_Closed sockfd])"
  | (send_failed) "ttl \<le> ttl_max cfg" "sendto_ret (probe env ttl) < 0"
      "res = (-1, route, log @ probe_events env sockfd ttl
                @ [Perror ''sendto'' (sendto_errno (probe env ttl)), Socket_Closed sockfd])"
  | (reached) r where "ttl \<le> ttl_max cfg" "0 \<le> sendto_ret (probe env ttl)"
      "tracer_append (realloc_ok env) route (hop_at env ttl) = Some r"
      "reply_type env ttl = Some ICMP_ECHOREPLY"
      "res = (0, r, log @ probe_events env sockfd ttl @ [Socket_Closed sockfd])"
  | (continued) r where "ttl \<le> ttl_max cfg" "0 \<le> sendto_ret (probe env ttl)"
      "tracer_append (realloc_ok env) route (hop_at env ttl) = Some r"
      "reply_type env ttl \<noteq> Some ICMP_ECHOREPLY"
      "tracer_loop env cfg sockfd (ttl_next ttl) r (log @ probe_events env sockfd ttl) = Some res"
  using assms
  by (subst (asm) tracer_loop.simps)
     (auto simp add: tracer_probe_eq split: if_splits option.splits)

lemma loop_post_finished:
  "\<not> ttl \<le> ttl_max cfg \<Longrightarrow> wf_route route \<Longrightarrow>
     loop_post env cfg sockfd ttl route log 0 0 route (log @ [Socket_Closed sockfd])"
  by (auto simp add: loop_post_def trace_hops_0 probe_log_0 ttl_at_0)

lemma loop_post_send_failed:
  "ttl \<le> ttl_max cfg \<Longrightarrow> sendto_ret (probe env ttl) < 0 \<Longrightarrow> wf_route route \<Longrightarrow>
     loop_post env cfg sockfd ttl route log 0 (-1) route (log @ sendto_error env sockfd ttl)"
  by (auto simp add: loop_post_def trace_hops_0 probe_log_0 ttl_at_0)

lemma loop_post_reached:
  assumes "ttl \<le> ttl_max cfg" "0 \<le> sendto_ret (probe env ttl)"
    and "tracer_append alloc route (hop_at env ttl) = Some r" "wf_route route"
    and "reply_type env ttl = Some ICMP_ECHOREPLY"
  shows "loop_post env cfg sockfd ttl route log (Suc 0) 0 r
           (log @ probe_events env sockfd ttl @ [Socket_Closed sockfd])"
proof -
  from tracer_append_wf [OF assms(3,4)]
  have "wf_route r" "hops r = hops route @ [hop_at env ttl]" by simp_all
  then show ?thesis
    using assms(1,2,5)
    by (auto simp add: loop_post_def trace_hops_Suc trace_hops_0 probe_log_Suc probe_log_0
          ttl_at_0)
qed

lemma loop_post_continued:
  assumes "ttl \<le> ttl_max cfg" "0 \<le> sendto_ret (probe env ttl)"
    and "tracer_append alloc route (hop_at env ttl) = Some r" "wf_route route"
    and "reply_type env ttl \<noteq> Some ICMP_ECHOREPLY"
    and post: "loop_post env cfg sockfd (ttl_next ttl) r (log @ probe_events env sockfd ttl) k
                 ret route' log'"
  shows "loop_post env cfg sockfd ttl route log (Suc k) ret route' log'"
proof -
  let ?n = "ttl_next ttl"
  from tracer_append_wf [OF assms(3,4)]
  have r: "wf_route r" "hops r = hops route @ [hop_at env ttl]" by simp_all
  from post have
    p1: "hops route' = hops r @ trace_hops env ?n k" and
    p2: "wf_route route'" and
    p3: "\<forall>i<k. ttl_at ?n i \<le> ttl_max cfg \<and> 0 \<le> sendto_ret (probe env (ttl_at ?n i))" and
    p4: "\<forall>i. Suc i < k \<longrightarrow> reply_type env (ttl_at ?n i) \<noteq> Some ICMP_ECHOREPLY" and
    p6: "ret = 0 \<and> log' = (log @ probe_events env sockfd ttl) @ probe_log env sockfd ?n k
                  @ [Socket_Closed sockfd]
            \<and> (0 < k \<and> reply_type env (ttl_at ?n (k - 1)) = Some ICMP_ECHOREPLY
                 \<or> ttl_max cfg < ttl_at ?n k)
         \<or> ret = -1 \<and> ttl_at ?n k \<le> ttl_max cfg \<and> sendto_ret (probe env (ttl_at ?n k)) < 0
            \<and> log' = (log @ probe_events env sockfd ttl) @ probe_log env sockfd ?n k
                  @ sendto_error env sockfd (ttl_at ?n k)"
    unfolding loop_post_def by blast+
  have q1: "hops route' = hops route @ trace_hops env ttl (Suc k)"
    using p1 r(2) by (simp add: trace_hops_Suc)
  have q3: "\<forall>i<Suc k. ttl_at ttl i \<le> ttl_max cfg \<and> 0 \<le> sendto_ret (probe env (ttl_at ttl i))"
  proof (intro allI impI)
    fix i assume "i < Suc k"
    then show "ttl_at ttl i \<le> ttl_max cfg \<and> 0 \<le> sendto_ret (probe env (ttl_at ttl i))"
      using p3 assms(1,2) by (cases i) (simp_all add: ttl_at_0 ttl_at_Suc)
  qed
  have q4: "\<forall>i. Suc i < Suc k \<longrightarrow> reply_type env (ttl_at ttl i) \<noteq> Some ICMP_ECHOREPLY"
  proof (intro allI impI)
    fix i assume "Suc i < Suc k"
    then show "reply_type env (ttl_at ttl i) \<noteq> Some ICMP_ECHOREPLY"
      using p4 assms(5) by (cases i) (simp_all add: ttl_at_0 ttl_at_Suc)
  qed
  have last: "0 < k \<Longrightarrow> ttl_at ?n (k - 1) = ttl_at ttl k"
    by (cases k) (simp_all add: ttl_at_Suc)
  have q6: "ret = 0 \<and> log' = log @ probe_log env sockfd ttl (Suc k) @ [Socket_Closed sockfd]
            \<and> (0 < Suc k \<and> reply_type env (ttl_at ttl (Suc k - 1)) = Some ICMP_ECHOREPLY
                 \<or> ttl_max cfg < ttl_at ttl (Suc k))
         \<or> ret = -1 \<and> ttl_at ttl (Suc k) \<le> ttl_max cfg
            \<and> sendto_ret (probe env (ttl_at ttl (Suc k))) < 0
            \<and> log' = log @ probe_log env sockfd ttl (Suc k)
                  @ sendto_error env sockfd (ttl_at ttl (Suc k))"
    using p6 last by (auto simp add: probe_log_Suc ttl_at_Suc)
  show ?thesis
    unfolding loop_post_def using q1 p2 q3 q4 q6 by blast
qed

lemma tracer_loop_post:
  assumes "tracer_loop env cfg sockfd ttl route log = Some (ret, route', log')"
    and "wf_route route"
  shows "\<exists>k. loop_post env cfg sockfd ttl route log k ret route' log'"
proof -
  have "wf_route route \<longrightarrow>
          (\<exists>k. loop_post env cfg sockfd ttl route log k (fst res) (fst (snd res)) (snd (snd res)))"
    if "tracer_loop env cfg sockfd ttl route log = Some res" for res
    using that
  proof (induction env cfg sockfd ttl route log res
           rule: tracer_loop.raw_induct [rotated 1, consumes 1])
    case (1 loop env cfg sockfd ttl route log res)
    show ?case
    proof
      assume wf: "wf_route route"
      let ?ev = "probe_events env sockfd ttl"
      show "\<exists>k. loop_post env cfg sockfd ttl route log k (fst res) (fst (snd res)) (snd (snd res))"
      proof (cases "ttl \<le> ttl_max cfg")
        case False
        with 1(2) have "res = (0, route, log @ [Socket_Closed sockfd])" by simp
        with False wf loop_post_finished [of ttl cfg route env sockfd log]
        show ?thesis by auto
      next
        case True
        show ?thesis
        proof (cases "sendto_ret (probe env ttl) < 0")
          case sf: True
          with True 1(2) have "res = (-1, route, log @ sendto_error env sockfd ttl)"
            by (simp add: tracer_probe_eq sendto_error_def)
          with True sf wf loop_post_send_failed [of ttl cfg env route sockfd log]
          show ?thesis by auto
        next
          case ok: False
          with True 1(2) obtain r where
            r: "tracer_append (realloc_ok env) route (hop_at env ttl) = Some r"
            by (auto simp add: tracer_probe_eq split: option.splits)
          have wfr: "wf_route r" using tracer_append_wf [OF r wf] by simp
          show ?thesis
          proof (cases "reply_type env ttl = Some ICMP_ECHOREPLY")
            case er: True
            with True ok r 1(2) have "res = (0, r, log @ ?ev @ [Socket_Closed sockfd])"
              by (simp add: tracer_probe_eq)
            with True ok r wf er
              loop_post_reached [of ttl cfg env "realloc_ok env" route r sockfd log]
            show ?thesis by auto
          next
            case ne: False
            with True ok r 1(2) have "loop env cfg sockfd (ttl_next ttl) r (log @ ?ev) = Some res"
              by (simp add: tracer_probe_eq)
            from 1(1) [OF this] wfr obtain k where
              "loop_post env cfg sockfd (ttl_next ttl) r (log @ ?ev) k
                 (fst res) (fst (snd res)) (snd (snd res))" by blast
            moreover from ok have "0 \<le> sendto_ret (probe env ttl)" by simp
            ultimately show ?thesis
              using True r wf ne
                loop_post_continued [of ttl cfg env "realloc_ok env" route r sockfd log k]
              by blast
          qed
        qed
      qed
    qed
  qed
  from this [OF assms(1)] assms(2) show ?thesis by simp
qed

section \<open>Parsing a reply\<close>

lemma ihl_append: "iph \<noteq> [] \<Longrightarrow> ihl (iph @ rest) = ihl iph"
  by (simp add: ihl_def)

text \<open>
  Claim C4. On a buffer and a result pointer that are not \<open>NULL\<close>, \<open>icmp_parse_response\<close>
  fails (returns -1 and sets \<open>*out_type\<close> to -1) exactly when the buffer is shorter than a
  minimal IPv4 header or shorter than \<open>ihl * 4\<close> plus the ICMP header; otherwise it returns 0
  and the byte at offset \<open>ihl * 4\<close>. So an IPv4 header of \<open>ihl * 4\<close> bytes followed by an ICMP
  message whose first byte is \<open>ty\<close> yields \<open>ty\<close>.
\<close>

theorem icmp_parse_response_truncated:
  "icmp_parse_response (Some buf) expected_ip (Some t0) =
     (if length buf < sizeof_iphdr \<or> length buf < ihl buf * 4 + sizeof_icmphdr
      then (-1, Some (-1))
      else (0, Some (uint (buf ! (ihl buf * 4)))))
   \<and> (length iph = ihl iph * 4 \<and> sizeof_iphdr \<le> length iph
          \<and> sizeof_icmphdr \<le> length (ty # rest)
        \<longrightarrow> icmp_parse_response (Some (iph @ ty # rest)) expected_ip (Some t0)
              = (0, Some (uint ty)))"
proof -
  have a: "icmp_parse_response (Some buf) expected_ip (Some t0) =
     (if length buf < sizeof_iphdr \<or> length buf < ihl buf * 4 + sizeof_icmphdr
      then (-1, Some (-1))
      else (0, Some (uint (buf ! (ihl buf * 4)))))"
    by (simp add: icmp_parse_response_def Let_def)
  have b: "icmp_parse_response (Some (iph @ ty # rest)) expected_ip (Some t0) = (0, Some (uint ty))"
    if h: "length iph = ihl iph * 4" "sizeof_iphdr \<le> length iph" "sizeof_icmphdr \<le> length (ty # rest)"
  proof -
    from h(2) have ne: "iph \<noteq> []" by (auto simp add: sizeof_iphdr_def)
    have i: "ihl (iph @ ty # rest) * 4 = length iph" using h(1) ne by (simp add: ihl_append)
    have n: "(iph @ ty # rest) ! length iph = ty" by simp
    show ?thesis
      using h(2,3) by (simp add: icmp_parse_response_def Let_def i n del: nth_append_length)
  qed
  from a b show ?thesis by blast
qed

theorem icmp_parse_response_truncated_witness:
  "icmp_parse_response (Some ((0x45 # replicate 19 0) @ 11 # replicate 7 0)) ''10.0.0.1'' (Some 0)
     = (0, Some 11)
   \<and> icmp_parse_response (Some (0x45 # replicate 18 0)) ''10.0.0.1'' (Some 0) = (-1, Some (-1))"
proof -
  have h: "length (0x45 # replicate 19 (0::u8)) = ihl (0x45 # replicate 19 0) * 4
           \<and> sizeof_iphdr \<le> length (0x45 # replicate 19 (0::u8))
           \<and> sizeof_icmphdr \<le> length (11 # replicate 7 (0::u8))"
    by (simp add: ihl_def sizeof_iphdr_def sizeof_icmphdr_def)
  have s: "length (0x45 # replicate 18 (0::u8)) < sizeof_iphdr"
    by (simp add: sizeof_iphdr_def)
  show ?thesis
    using h s
      icmp_parse_response_truncated [of "0x45 # replicate 18 0" "''10.0.0.1''" 0
        "0x45 # replicate 19 0" 11 "replicate 7 0"]
    by simp
qed

section \<open>Connecting with a timeout\<close>

text \<open>
  Claim C2, as stated, fails: a wait that elapses with no event and a pending socket error
  \<open>ECONNREFUSED\<close> give the caller the same return value, the same \<open>errno\<close> and the same
  events, so the two are not distinguishable.
\<close>

theorem net_tcp_connect_refused_is_timeout:
  "select_ret timed_out_calls = 0
   \<and> 0 < select_ret refused_calls \<and> so_error refused_calls \<noteq> 0
   \<and> net_tcp_connect timed_out_calls 0 = net_tcp_connect refused_calls 0
   \<and> fst (net_tcp_connect refused_calls 0) = -1"
  by (simp add: timed_out_calls_def refused_calls_def net_tcp_connect_def Let_def
        EINPROGRESS_def ECONNREFUSED_def)

text \<open>
  Claim C2, amended. \<open>net_tcp_connect\<close> returns the socket descriptor when \<open>connect\<close>
  completes at once or when, after the socket became writable, the pending socket error is
  zero; in every other case it returns -1. For an attempt in progress, a wait that elapses
  with no event and a non-zero pending socket error both give -1 with \<open>errno\<close> left at
  \<open>EINPROGRESS\<close>: the function does not report a refusal apart from a timeout.
\<close>

theorem net_tcp_connect_outcome:
  "fst (net_tcp_connect sys errno0) =
     (if 0 \<le> socket_ret sys \<and> 0 \<le> getfl_ret sys \<and> 0 \<le> setfl_ret sys
         \<and> (connect_ret sys = 0
              \<or> (if connect_ret sys < 0 then connect_errno sys else errno0) = EINPROGRESS
                \<and> 0 < select_ret sys \<and> 0 \<le> getsockopt_ret sys \<and> so_error sys = 0)
      then socket_ret sys else -1)
   \<and> (in_progress sys \<and> select_ret sys = 0 \<longrightarrow>
        net_tcp_connect sys errno0
          = (-1, EINPROGRESS, [Socket_Opened (socket_ret sys), Socket_Closed (socket_ret sys)]))
   \<and> (in_progress sys \<and> 0 < select_ret sys \<and> 0 \<le> getsockopt_ret sys \<and> so_error sys \<noteq> 0 \<longrightarrow>
        net_tcp_connect sys errno0
          = (-1, EINPROGRESS, [Socket_Opened (socket_ret sys), Socket_Closed (socket_ret sys)]))"
  by (auto simp add: net_tcp_connect_def Let_def in_progress_def)

theorem net_tcp_connect_outcome_witness:
  "in_progress refused_calls \<and> 0 < select_ret refused_calls
   \<and> 0 \<le> getsockopt_ret refused_calls \<and> so_error refused_calls \<noteq> 0
   \<and> net_tcp_connect refused_calls 0 = (-1, EINPROGRESS, [Socket_Opened 3, Socket_Closed 3])
   \<and> in_progress timed_out_calls \<and> select_ret timed_out_calls = 0
   \<and> net_tcp_connect timed_out_calls 0 = (-1, EINPROGRESS, [Socket_Opened 3, Socket_Closed 3])"
proof -
  have r: "in_progress refused_calls \<and> 0 < select_ret refused_calls
           \<and> 0 \<le> getsockopt_ret refused_calls \<and> so_error refused_calls \<noteq> 0"
    by (simp add: in_progress_def refused_calls_def ECONNREFUSED_def)
  have t: "in_progress timed_out_calls \<and> select_ret timed_out_calls = 0"
    by (simp add: in_progress_def timed_out_calls_def)
  have sr: "socket_ret refused_calls = 3" by (simp add: refused_calls_def)
  have st: "socket_ret timed_out_calls = 3" by (simp add: timed_out_calls_def)
  show ?thesis
    using r t net_tcp_connect_outcome [of refused_calls 0]
      net_tcp_connect_outcome [of timed_out_calls 0]
    by (simp add: sr st)
qed

section \<open>Runs of the traceroute engine\<close>

lemma reset_route: "(out0 :: TraceRoute)\<lparr>rows := None, len := 0, cap := 0\<rparr> = empty_route"
  by (cases out0) (simp add: empty_route_def)

lemma wf_empty_route: "wf_route empty_route"
  by (simp add: wf_route_def empty_route_def)

lemma hops_empty_route: "hops empty_route = []"
  by (simp add: hops_def empty_route_def)

lemma tracer_run_eq:
  "tracer_run env cfg out0 =
     (if getaddrinfo_status env \<noteq> 0
      then Some (-1, empty_route,
             [Gai_Error (target cfg) (getaddrinfo_status env),
              Stderr (''Error: Failed to resolve target '' @ [CHR 0x27] @ target cfg @ [CHR 0x27])])
      else if raw_socket_ret env < 0
      then Some (-1, empty_route, snd (net_icmp_raw_socket (raw_socket_ret env) (raw_socket_errno env)))
      else tracer_loop env cfg (raw_socket_ret env) (ttl_start cfg) empty_route
             [Socket_Opened (raw_socket_ret env)])"
  by (simp add: tracer_run_def reset_route net_resolve_def net_icmp_raw_socket_def Let_def)

section \<open>Failures before the first probe\<close>

text \<open>
  Claim C10. \<open>tracer_run\<close> clears its output first: what it returns does not depend on what
  the output structure held before, and when target resolution or raw-socket creation fails
  it returns -1 with the empty table (\<open>rows\<close> \<open>NULL\<close>, \<open>len\<close> 0, \<open>cap\<close> 0).
\<close>

theorem tracer_run_resets_output:
  "tracer_run env cfg out0 = tracer_run env cfg out1
   \<and> (getaddrinfo_status env \<noteq> 0 \<or> raw_socket_ret env < 0 \<longrightarrow>
        (\<exists>log. tracer_run env cfg out0 = Some (-1, \<lparr>rows = None, len = 0, cap = 0\<rparr>, log)))"
  by (auto simp add: tracer_run_eq empty_route_def)

theorem tracer_run_resets_output_witness:
  "getaddrinfo_status (quiet_env\<lparr>getaddrinfo_status := - 2\<rparr>) \<noteq> 0
   \<and> (\<exists>log. tracer_run (quiet_env\<lparr>getaddrinfo_status := - 2\<rparr>) (trace_cfg 1 30)
               \<lparr>rows = Some [lost_hop 1, lost_hop 2], len = 2, cap = 16\<rparr>
             = Some (-1, \<lparr>rows = None, len = 0, cap = 0\<rparr>, log))"
proof -
  have h: "getaddrinfo_status (quiet_env\<lparr>getaddrinfo_status := - 2\<rparr>) \<noteq> 0" by simp
  show ?thesis
    using h tracer_run_resets_output
      [of "quiet_env\<lparr>getaddrinfo_status := - 2\<rparr>" "trace_cfg 1 30"
          "\<lparr>rows = Some [lost_hop 1, lost_hop 2], len = 2, cap = 16\<rparr>"]
    by blast
qed

section \<open>A reversed TTL range\<close>

text \<open>
  Claim C8, as stated, fails: with \<open>ttl_start = 5\<close> and \<open>ttl_max = 1\<close>, a target that resolves
  and a raw socket that opens, \<open>tracer_run\<close> opens the socket, closes it and returns
  success with an empty hop list.
\<close>

theorem tracer_run_reversed_range_succeeds:
  "ttl_max (trace_cfg 5 1) < ttl_start (trace_cfg 5 1)
   \<and> tracer_run quiet_env (trace_cfg 5 1) empty_route
       = Some (0, empty_route, [Socket_Opened 3, Socket_Closed 3])"
  by (simp add: tracer_run_eq quiet_env_def trace_cfg_def tracer_loop.simps)

text \<open>
  Claim C8, amended. \<open>tracer_run\<close> does not check the TTL range (a reversed range is
  rejected by the command-line collaborator, before the engine runs): invoked with
  \<open>ttl_start > ttl_max\<close>, once the target resolves and the raw socket opens, it sends no
  probe, closes the socket and returns success (0) with an empty hop list.
\<close>

theorem tracer_run_empty_range:
  assumes "ttl_max cfg < ttl_start cfg"
    and "getaddrinfo_status env = 0" and "0 \<le> raw_socket_ret env"
  shows "tracer_run env cfg out0
           = Some (0, \<lparr>rows = None, len = 0, cap = 0\<rparr>,
                   [Socket_Opened (raw_socket_ret env), Socket_Closed (raw_socket_ret env)])"
  using assms by (simp add: tracer_run_eq tracer_loop.simps empty_route_def)

theorem tracer_run_empty_range_witness:
  "ttl_max (trace_cfg 30 1) < ttl_start (trace_cfg 30 1)
   \<and> getaddrinfo_status quiet_env = 0 \<and> 0 \<le> raw_socket_ret quiet_env
   \<and> tracer_run quiet_env (trace_cfg 30 1) empty_route
       = Some (0, \<lparr>rows = None, len = 0, cap = 0\<rparr>, [Socket_Opened 3, Socket_Closed 3])"
proof -
  have h1: "ttl_max (trace_cfg 30 1) < ttl_start (trace_cfg 30 1)" by (simp add: trace_cfg_def)
  have h2: "getaddrinfo_status quiet_env = 0" by (simp add: quiet_env_def)
  have h3: "0 \<le> raw_socket_ret quiet_env" by (simp add: quiet_env_def)
  have fd: "raw_socket_ret quiet_env = 3" by (simp add: quiet_env_def)
  show ?thesis
    using h1 h2 h3 tracer_run_empty_range [OF h1 h2 h3, of empty_route]
    by (simp add: fd)
qed

section \<open>Refused raw sockets\<close>

text \<open>
  Claim C7. When \<open>socket\<close> fails with \<open>EPERM\<close>, \<open>net_icmp_raw_socket\<close> prints the privilege
  hint (the root requirement and the \<open>sudo\<close> command line) and returns -1; on any other
  \<open>errno\<close> it prints the generic \<open>perror\<close> line and returns -1. The two outcomes differ by
  what is printed, the returned value being -1 in both; \<open>tracer_run\<close> passes the failure
  on with the hint and no hop.
\<close>

theorem net_icmp_raw_socket_permission_denied:
  assumes "sock_ret < 0"
  shows "net_icmp_raw_socket sock_ret EPERM = (-1, privilege_hint)
         \<and> (\<forall>e. e \<noteq> EPERM \<longrightarrow>
               net_icmp_raw_socket sock_ret e = (-1, [Perror ''socket IPPROTO_ICMP'' e])
               \<and> net_icmp_raw_socket sock_ret e \<noteq> net_icmp_raw_socket sock_ret EPERM)
         \<and> (getaddrinfo_status env = 0 \<and> raw_socket_ret env = sock_ret
               \<and> raw_socket_errno env = EPERM \<longrightarrow>
             tracer_run env cfg out0 = Some (-1, \<lparr>rows = None, len = 0, cap = 0\<rparr>, privilege_hint))"
  using assms
  by (auto simp add: net_icmp_raw_socket_def privilege_hint_def tracer_run_eq empty_route_def)

theorem net_icmp_raw_socket_permission_denied_witness:
  "(-1::int) < 0
   \<and> net_icmp_raw_socket (-1) EPERM = (-1, privilege_hint)
   \<and> EMFILE \<noteq> EPERM
   \<and> net_icmp_raw_socket (-1) EMFILE = (-1, [Perror ''socket IPPROTO_ICMP'' EMFILE])
   \<and> net_icmp_raw_socket (-1) EMFILE \<noteq> net_icmp_raw_socket (-1) EPERM
   \<and> tracer_run (quiet_env\<lparr>raw_socket_ret := -1, raw_socket_errno := EPERM\<rparr>) (trace_cfg 1 30)
        empty_route = Some (-1, \<lparr>rows = None, len = 0, cap = 0\<rparr>, privilege_hint)"
proof -
  have h: "(-1::int) < 0" by simp
  have d: "EMFILE \<noteq> EPERM" by (simp add: EMFILE_def EPERM_def)
  have q: "getaddrinfo_status (quiet_env\<lparr>raw_socket_ret := -1, raw_socket_errno := EPERM\<rparr>) = 0
           \<and> raw_socket_ret (quiet_env\<lparr>raw_socket_ret := -1, raw_socket_errno := EPERM\<rparr>) = -1
           \<and> raw_socket_errno (quiet_env\<lparr>raw_socket_ret := -1, raw_socket_errno := EPERM\<rparr>) = EPERM"
    by (simp add: quiet_env_def)
  show ?thesis
    using h d q net_icmp_raw_socket_permission_denied
      [OF h, of "quiet_env\<lparr>raw_socket_ret := -1, raw_socket_errno := EPERM\<rparr>"
         "trace_cfg 1 30" empty_route]
    by blast
qed

section \<open>A concrete run\<close>

lemma parsed_type_echo_reply: "parsed_type echo_reply_datagram addr = 0"
  by (simp add: parsed_type_def echo_reply_datagram_def icmp_parse_response_def
        sizeof_iphdr_def sizeof_icmphdr_def ihl_def Let_def nth_append)

lemma hop_at_reply_env:
  "hop_at reply_env 1 = lost_hop 1" "hop_at reply_env 2 = reply_hop"
  by (simp_all add: hop_at_def reply_env_def quiet_env_def idle_probe_def reply_probe_def
        reply_hop_def long_to_int_def Let_def)

lemma reply_type_reply_env:
  "reply_type reply_env 1 = None" "reply_type reply_env 2 = Some ICMP_ECHOREPLY"
  by (simp_all add: reply_type_def reply_env_def quiet_env_def idle_probe_def reply_probe_def
        parsed_type_echo_reply ICMP_ECHOREPLY_def Let_def)

lemma reply_env_calls:
  "getaddrinfo_status reply_env = 0" "raw_socket_ret reply_env = 3"
  "sendto_ret (probe reply_env t) = 8" "realloc_ok reply_env n"
  by (simp_all add: reply_env_def quiet_env_def idle_probe_def reply_probe_def)

lemma reply_run:
  "tracer_run reply_env (trace_cfg 1 3) out0
     = Some (0, \<lparr>rows = Some [lost_hop 1, reply_hop], len = 2, cap = 16\<rparr>,
             [Socket_Opened 3] @ probe_events reply_env 3 1 @ probe_events reply_env 3 2
               @ [Socket_Closed 3])"
  by (simp add: tracer_run_eq reply_env_calls tracer_loop.simps tracer_probe_eq
        hop_at_reply_env reply_type_reply_env tracer_append_def empty_route_def
        trace_cfg_def ttl_next_def INT_MAX_def Let_def)

section \<open>The hop list of a successful run\<close>

lemma hop_hop_at: "hop (hop_at env t) = t"
  by (simp add: hop_at_def lost_hop_def Let_def split: option.split)

lemma length_trace_hops: "length (trace_hops env t k) = k"
  by (simp add: trace_hops_def)

lemma nth_trace_hops: "i < k \<Longrightarrow> trace_hops env t k ! i = hop_at env (ttl_at t i)"
  by (simp add: trace_hops_def)

lemma wf_route_len: "wf_route route \<Longrightarrow> len route = length (hops route)"
  by (auto simp add: wf_route_def hops_def split: option.splits)

lemma sorted_wrt_ascending:
  "(\<And>i. i < length (xs :: int list) \<Longrightarrow> xs ! i = a + int i) \<Longrightarrow> sorted_wrt (<) xs"
  by (simp add: sorted_wrt_iff_nth_less)

lemma ttl_at_below:
  assumes "\<forall>i<k. ttl_at a i \<le> m" and "m < INT_MAX"
  shows "i \<le> k \<Longrightarrow> ttl_at a i = a + int i"
proof (induction i)
  case 0
  show ?case by (simp add: ttl_at_0)
next
  case (Suc i)
  then have e: "ttl_at a i = a + int i" and "i < k" by simp_all
  with assms have "ttl_at a i \<noteq> INT_MAX" by auto
  then show ?case by (simp add: ttl_at_Suc_right ttl_next_def e)
qed

lemma hop_at_wrap_env:
  "hop_at wrap_env 2147483647 = lost_hop 2147483647"
  "hop_at wrap_env (- 2147483648)
     = \<lparr>hop = - 2147483648, host = ''10.0.0.2'', ip = ''10.0.0.2'', rtt_ms = 5, timeout = False\<rparr>"
  by (simp_all add: hop_at_def wrap_env_def quiet_env_def idle_probe_def reply_probe_def
        long_to_int_def Let_def)

lemma reply_type_wrap_env:
  "reply_type wrap_env 2147483647 = None"
  "reply_type wrap_env (- 2147483648) = Some ICMP_ECHOREPLY"
  by (simp_all add: reply_type_def wrap_env_def quiet_env_def idle_probe_def reply_probe_def
        parsed_type_echo_reply ICMP_ECHOREPLY_def Let_def)

lemma wrap_env_calls:
  "getaddrinfo_status wrap_env = 0" "raw_socket_ret wrap_env = 3"
  "sendto_ret (probe wrap_env t) = 8" "realloc_ok wrap_env n"
  by (simp_all add: wrap_env_def quiet_env_def idle_probe_def reply_probe_def)

text \<open>
  Claim C3, as stated, fails: with \<open>ttl_start = ttl_max = INT_MAX\<close> the test
  \<open>ttl <= cfg->ttl_max\<close> holds for every \<open>int\<close>. When the probe at \<open>INT_MAX\<close> times out, \<open>ttl++\<close>
  wraps to \<open>INT_MIN\<close>, and an Echo Reply to that probe ends the run with success and the two
  hops \<open>INT_MAX\<close>, \<open>INT_MIN\<close>: not ascending, and more than the one TTL of the range.
\<close>

theorem tracer_run_wraps_at_int_max:
  "ttl_start (trace_cfg 2147483647 2147483647) \<le> ttl_max (trace_cfg 2147483647 2147483647)
   \<and> tracer_run wrap_env (trace_cfg 2147483647 2147483647) empty_route
       = Some (0, wrap_route,
               [Socket_Opened 3] @ probe_events wrap_env 3 2147483647
                 @ probe_events wrap_env 3 (- 2147483648) @ [Socket_Closed 3])
   \<and> map hop (hops wrap_route) = [2147483647, - 2147483648]
   \<and> \<not> sorted_wrt (<) (map hop (hops wrap_route))
   \<and> \<not> int (length (hops wrap_route))
         \<le> ttl_max (trace_cfg 2147483647 2147483647)
             - ttl_start (trace_cfg 2147483647 2147483647) + 1"
proof -
  have run: "tracer_run wrap_env (trace_cfg 2147483647 2147483647) empty_route
       = Some (0, wrap_route,
               [Socket_Opened 3] @ probe_events wrap_env 3 2147483647
                 @ probe_events wrap_env 3 (- 2147483648) @ [Socket_Closed 3])"
    by (simp add: tracer_run_eq wrap_env_calls tracer_loop.simps tracer_probe_eq
          hop_at_wrap_env reply_type_wrap_env tracer_append_def empty_route_def
          trace_cfg_def ttl_next_def INT_MAX_def INT_MIN_def wrap_route_def Let_def)
  have h: "map hop (hops wrap_route) = [2147483647, - 2147483648]"
    by (simp add: hops_def wrap_route_def lost_hop_def)
  have c: "ttl_start (trace_cfg 2147483647 2147483647) = 2147483647"
    "ttl_max (trace_cfg 2147483647 2147483647) = 2147483647"
    by (simp_all add: trace_cfg_def)
  have l: "length (hops wrap_route) = 2" by (simp add: hops_def wrap_route_def)
  show ?thesis
    unfolding run h c l by simp
qed

text \<open>
  Claim C3, amended. For every configuration with \<open>ttl_start \<le> ttl_max < INT_MAX\<close>, when
  \<open>tracer_run\<close> returns success the hop list is not empty, its \<open>i\<close>-th hop has hop number
  \<open>ttl_start + i\<close> (so the hop numbers ascend strictly from \<open>ttl_start\<close>), its length is at
  most \<open>ttl_max - ttl_start + 1\<close>, and a hop whose reply was parsed as Echo Reply is the last
  one.
\<close>

theorem tracer_run_hop_list:
  assumes "ttl_start cfg \<le> ttl_max cfg" and "ttl_max cfg < INT_MAX"
    and "tracer_run env cfg out0 = Some (0, route, log)"
  shows "hops route \<noteq> []
         \<and> len route = length (hops route)
         \<and> (\<forall>i < length (hops route). hop (hops route ! i) = ttl_start cfg + int i)
         \<and> sorted_wrt (<) (map hop (hops route))
         \<and> int (length (hops route)) \<le> ttl_max cfg - ttl_start cfg + 1
         \<and> (\<forall>i < length (hops route).
               reply_type env (hop (hops route ! i)) = Some ICMP_ECHOREPLY
               \<longrightarrow> Suc i = length (hops route))"
proof -
  let ?a = "ttl_start cfg"
  from assms(3) have run:
    "tracer_loop env cfg (raw_socket_ret env) ?a empty_route [Socket_Opened (raw_socket_ret env)]
       = Some (0, route, log)"
    by (simp add: tracer_run_eq split: if_splits)
  from tracer_loop_post [OF run wf_empty_route] obtain k where
    post: "loop_post env cfg (raw_socket_ret env) ?a empty_route
             [Socket_Opened (raw_socket_ret env)] k 0 route log" by blast
  then have h: "hops route = trace_hops env ?a k"
    and wf: "wf_route route"
    and below: "\<forall>i<k. ttl_at ?a i \<le> ttl_max cfg"
    and noreply: "\<forall>i. Suc i < k \<longrightarrow> reply_type env (ttl_at ?a i) \<noteq> Some ICMP_ECHOREPLY"
    and fin: "0 < k \<and> reply_type env (ttl_at ?a (k - 1)) = Some ICMP_ECHOREPLY
              \<or> ttl_max cfg < ttl_at ?a k"
    by (simp_all add: loop_post_def hops_empty_route)
  have pos: "0 < k"
  proof (rule ccontr)
    assume "\<not> 0 < k"
    then have "k = 0" by simp
    with fin have "ttl_max cfg < ?a" by (simp add: ttl_at_0)
    with assms(1) show False by simp
  qed
  have at: "ttl_at ?a i = ?a + int i" if "i \<le> k" for i
    using ttl_at_below [OF below assms(2) that] .
  have len: "length (hops route) = k" by (simp add: h length_trace_hops)
  have nth: "hop (hops route ! i) = ?a + int i" if "i < k" for i
    using that at [of i] by (simp add: h nth_trace_hops hop_hop_at)
  have c1: "hops route \<noteq> []" using len pos by auto
  have c2: "len route = length (hops route)" using wf by (rule wf_route_len)
  have c3: "\<forall>i < length (hops route). hop (hops route ! i) = ?a + int i"
    using nth len by simp
  have c4: "sorted_wrt (<) (map hop (hops route))"
    by (rule sorted_wrt_ascending [of _ ?a]) (simp add: c3)
  have "ttl_at ?a (k - 1) \<le> ttl_max cfg" using below pos by simp
  then have "?a + int (k - 1) \<le> ttl_max cfg" using at [of "k - 1"] by simp
  then have c5: "int (length (hops route)) \<le> ttl_max cfg - ?a + 1"
    using len pos by simp
  have c6: "\<forall>i < length (hops route).
               reply_type env (hop (hops route ! i)) = Some ICMP_ECHOREPLY
               \<longrightarrow> Suc i = length (hops route)"
  proof (intro allI impI)
    fix i assume i: "i < length (hops route)"
      and r: "reply_type env (hop (hops route ! i)) = Some ICMP_ECHOREPLY"
    from i len have ik: "i < k" by simp
    with r nth at [of i] have "reply_type env (ttl_at ?a i) = Some ICMP_ECHOREPLY" by simp
    with noreply have "\<not> Suc i < k" by auto
    with ik len show "Suc i = length (hops route)" by simp
  qed
  from c1 c2 c3 c4 c5 c6 show ?thesis by blast
qed

theorem tracer_run_hop_list_witness:
  "ttl_start (trace_cfg 1 3) \<le> ttl_max (trace_cfg 1 3)
   \<and> ttl_max (trace_cfg 1 3) < INT_MAX
   \<and> (\<exists>route log.
         tracer_run reply_env (trace_cfg 1 3) empty_route = Some (0, route, log)
         \<and> hops route = [lost_hop 1, reply_hop]
         \<and> hops route \<noteq> []
         \<and> len route = length (hops route)
         \<and> (\<forall>i < length (hops route). hop (hops route ! i) = ttl_start (trace_cfg 1 3) + int i)
         \<and> sorted_wrt (<) (map hop (hops route))
         \<and> int (length (hops route)) \<le> ttl_max (trace_cfg 1 3) - ttl_start (trace_cfg 1 3) + 1
         \<and> (\<forall>i < length (hops route).
               reply_type reply_env (hop (hops route ! i)) = Some ICMP_ECHOREPLY
               \<longrightarrow> Suc i = length (hops route)))"
proof -
  let ?route = "\<lparr>rows = Some [lost_hop 1, reply_hop], len = 2, cap = 16\<rparr>"
  have h1: "ttl_start (trace_cfg 1 3) \<le> ttl_max (trace_cfg 1 3)" by (simp add: trace_cfg_def)
  have h2: "tracer_run reply_env (trace_cfg 1 3) empty_route
              = Some (0, ?route, [Socket_Opened 3] @ probe_events reply_env 3 1
                         @ probe_events reply_env 3 2 @ [Socket_Closed 3])"
    by (rule reply_run)
  have h3: "hops ?route = [lost_hop 1, reply_hop]" by (simp add: hops_def)
  have h4: "ttl_max (trace_cfg 1 3) < INT_MAX" by (simp add: trace_cfg_def INT_MAX_def)
  show ?thesis
    using h1 h2 h3 h4 tracer_run_hop_list [OF h1 h4 h2] by blast
qed

section \<open>The probes of a run\<close>

lemma sent_packets_append: "sent_packets (xs @ ys) = sent_packets xs @ sent_packets ys"
  by (induction xs rule: sent_packets.induct) simp_all

lemma ttls_set_append: "ttls_set (xs @ ys) = ttls_set xs @ ttls_set ys"
  by (induction xs rule: ttls_set.induct) simp_all

lemma sent_packets_probe_events:
  "sent_packets (probe_events env sockfd t) = [echo_request (host_order env) t]"
  by (simp add: probe_events_def net_set_ttl_def sent_packets_append)

lemma ttls_set_probe_events: "ttls_set (probe_events env sockfd t) = [t]"
  by (simp add: probe_events_def net_set_ttl_def ttls_set_append)

lemma sent_packets_probe_log:
  "sent_packets (probe_log env sockfd t k)
     = map (\<lambda>i. echo_request (host_order env) (ttl_at t i)) [0..<k]"
proof (induction k arbitrary: t)
  case 0
  show ?case by (simp add: probe_log_0)
next
  case (Suc k)
  show ?case
    by (simp add: probe_log_Suc sent_packets_append sent_packets_probe_events Suc
          map_upt_Suc ttl_at_0 ttl_at_Suc del: upt_Suc)
qed

lemma ttls_set_probe_log:
  "ttls_set (probe_log env sockfd t k) = map (ttl_at t) [0..<k]"
proof (induction k arbitrary: t)
  case 0
  show ?case by (simp add: probe_log_0)
next
  case (Suc k)
  show ?case
    by (simp add: probe_log_Suc ttls_set_append ttls_set_probe_events Suc
          map_upt_Suc ttl_at_0 ttl_at_Suc del: upt_Suc)
qed

lemma sent_packets_sendto_error:
  "sent_packets (sendto_error env sockfd t) = [echo_request (host_order env) t]"
  by (simp add: sendto_error_def sent_packets_append sent_packets_probe_events)

lemma ttls_set_sendto_error: "ttls_set (sendto_error env sockfd t) = [t]"
  by (simp add: sendto_error_def ttls_set_append ttls_set_probe_events)

lemma tracer_loop_probes:
  assumes "tracer_loop env cfg sockfd ttl route log = Some (ret, route', log')"
    and "wf_route route"
  shows "\<exists>m. sent_packets log'
                = sent_packets log @ map (\<lambda>i. echo_request (host_order env) (ttl_at ttl i)) [0..<m]
             \<and> ttls_set log' = ttls_set log @ map (ttl_at ttl) [0..<m]"
proof -
  from tracer_loop_post [OF assms] obtain k where
    "loop_post env cfg sockfd ttl route log k ret route' log'" by blast
  then consider
      (ok) "log' = log @ probe_log env sockfd ttl k @ [Socket_Closed sockfd]"
    | (err) "log' = log @ probe_log env sockfd ttl k @ sendto_error env sockfd (ttl_at ttl k)"
    unfolding loop_post_def by blast
  then show ?thesis
  proof cases
    case ok
    then have "sent_packets log'
                = sent_packets log @ map (\<lambda>i. echo_request (host_order env) (ttl_at ttl i)) [0..<k]"
      and "ttls_set log' = ttls_set log @ map (ttl_at ttl) [0..<k]"
      by (simp_all add: sent_packets_append ttls_set_append sent_packets_probe_log ttls_set_probe_log)
    then show ?thesis by blast
  next
    case err
    then have "sent_packets log'
                = sent_packets log
                  @ map (\<lambda>i. echo_request (host_order env) (ttl_at ttl i)) [0..<Suc k]"
      and "ttls_set log' = ttls_set log @ map (ttl_at ttl) [0..<Suc k]"
      by (simp_all add: sent_packets_append ttls_set_append sent_packets_probe_log
            ttls_set_probe_log sent_packets_sendto_error ttls_set_sendto_error)
    then show ?thesis by blast
  qed
qed

lemma echo_request_fields:
  "length (echo_request e t) = 8
   \<and> echo_request e t ! 0 = 8
   \<and> echo_request e t ! 1 = 0
   \<and> load16 Big_Endian (echo_request e t ! 4) (echo_request e t ! 5) = 0x1234
   \<and> load16 Big_Endian (echo_request e t ! 6) (echo_request e t ! 7) = word_of_int t"
proof -
  obtain a b where
    "echo_request e t =
       [ICMP_ECHO, 0, a, b, ucast (drop_bit 8 ICMP_ID), ucast ICMP_ID,
        ucast (drop_bit 8 (word_of_int t :: u16)), ucast (word_of_int t :: u16)]"
    unfolding echo_request_def by (rule echo_header_split) 
  then show ?thesis
    by (simp add: load16_network ICMP_ECHO_def) (simp add: ICMP_ID_def)
qed

lemma uint_seq: "0 \<le> t \<Longrightarrow> t \<le> 65535 \<Longrightarrow> uint (word_of_int t :: u16) = t"
  by (simp add: uint_word_of_int take_bit_eq_mod)

lemma seq_ttl_next: "(word_of_int (ttl_next t) :: u16) = word_of_int t + 1"
  by (simp add: ttl_next_def INT_MAX_def INT_MIN_def)

lemma seq_ttl_at: "(word_of_int (ttl_at a i) :: u16) = word_of_int (a + int i)"
proof (induction i)
  case 0
  show ?case by (simp add: ttl_at_0)
next
  case (Suc i)
  have "(word_of_int (ttl_at a (Suc i)) :: u16) = word_of_int (ttl_at a i) + 1"
    by (simp only: ttl_at_Suc_right seq_ttl_next)
  also have "\<dots> = word_of_int (a + int i) + 1" by (simp only: Suc)
  also have "\<dots> = word_of_int (a + int (Suc i))" by (simp add: add.assoc)
  finally show ?case .
qed

text \<open>
  Claim C6. Every packet the engine hands to \<open>sendto\<close> is 8 bytes long and carries type 8,
  code 0, the identifier \<open>0x1234\<close> and, as its sequence number (both in network byte order),
  the TTL of the hop being probed cast to \<open>uint16_t\<close>; that TTL is the one handed to
  \<open>net_set_ttl\<close> just before. The TTL of the \<open>i\<close>-th packet of a run is \<open>ttl_start\<close> after \<open>i\<close>
  steps of \<open>ttl++\<close>, which is \<open>ttl_start + i\<close> as long as that does not exceed \<open>INT_MAX\<close>; as
  \<open>2^32\<close> is a multiple of \<open>2^16\<close>, the sequence number is \<open>(uint16_t) (ttl_start + i)\<close> in
  every case. The sequence field is 16 bits wide, so it holds the TTL itself for every TTL
  from 0 to 65535.
\<close>

theorem tracer_run_echo_requests:
  assumes "tracer_run env cfg out0 = Some (ret, route, log)"
  shows "length (ttls_set log) = length (sent_packets log)
         \<and> (\<forall>i < length (sent_packets log).
               ttls_set log ! i = ttl_at (ttl_start cfg) i
               \<and> (ttl_start cfg + int i \<le> INT_MAX \<longrightarrow> ttls_set log ! i = ttl_start cfg + int i)
               \<and> length (sent_packets log ! i) = 8
               \<and> sent_packets log ! i ! 0 = 8
               \<and> sent_packets log ! i ! 1 = 0
               \<and> load16 Big_Endian (sent_packets log ! i ! 4) (sent_packets log ! i ! 5) = 0x1234
               \<and> load16 Big_Endian (sent_packets log ! i ! 6) (sent_packets log ! i ! 7)
                   = word_of_int (ttls_set log ! i)
               \<and> load16 Big_Endian (sent_packets log ! i ! 6) (sent_packets log ! i ! 7)
                   = word_of_int (ttl_start cfg + int i)
               \<and> (0 \<le> ttls_set log ! i \<and> ttls_set log ! i \<le> 65535 \<longrightarrow>
                    uint (load16 Big_Endian (sent_packets log ! i ! 6) (sent_packets log ! i ! 7))
                      = ttls_set log ! i)
               \<and> (0 \<le> ttl_start cfg + int i \<and> ttl_start cfg + int i \<le> 65535 \<longrightarrow>
                    uint (load16 Big_Endian (sent_packets log ! i ! 6) (sent_packets log ! i ! 7))
                      = ttl_start cfg + int i))"
proof (cases "getaddrinfo_status env \<noteq> 0 \<or> raw_socket_ret env < 0")
  case True
  with assms have "sent_packets log = []" "ttls_set log = []"
    by (auto simp add: tracer_run_eq net_icmp_raw_socket_def split: if_splits)
  then show ?thesis by simp
next
  case False
  let ?a = "ttl_start cfg"
  from False assms have run:
    "tracer_loop env cfg (raw_socket_ret env) ?a empty_route [Socket_Opened (raw_socket_ret env)]
       = Some (ret, route, log)"
    by (simp add: tracer_run_eq)
  from tracer_loop_probes [OF run wf_empty_route] obtain m where
    s: "sent_packets log = map (\<lambda>i. echo_request (host_order env) (ttl_at ?a i)) [0..<m]" and
    t: "ttls_set log = map (ttl_at ?a) [0..<m]"
    by auto
  have len: "length (ttls_set log) = length (sent_packets log)" by (simp add: s t)
  have "length (sent_packets log) = m" by (simp add: s)
  moreover have
    "ttls_set log ! i = ttl_at ?a i
     \<and> (?a + int i \<le> INT_MAX \<longrightarrow> ttls_set log ! i = ?a + int i)
     \<and> length (sent_packets log ! i) = 8
     \<and> sent_packets log ! i ! 0 = 8
     \<and> sent_packets log ! i ! 1 = 0
     \<and> load16 Big_Endian (sent_packets log ! i ! 4) (sent_packets log ! i ! 5) = 0x1234
     \<and> load16 Big_Endian (sent_packets log ! i ! 6) (sent_packets log ! i ! 7)
         = word_of_int (ttls_set log ! i)
     \<and> load16 Big_Endian (sent_packets log ! i ! 6) (sent_packets log ! i ! 7)
         = word_of_int (?a + int i)
     \<and> (0 \<le> ttls_set log ! i \<and> ttls_set log ! i \<le> 65535 \<longrightarrow>
          uint (load16 Big_Endian (sent_packets log ! i ! 6) (sent_packets log ! i ! 7))
            = ttls_set log ! i)
     \<and> (0 \<le> ?a + int i \<and> ?a + int i \<le> 65535 \<longrightarrow>
          uint (load16 Big_Endian (sent_packets log ! i ! 6) (sent_packets log ! i ! 7))
            = ?a + int i)" if "i < m" for i
  proof -
    let ?p = "sent_packets log ! i"
    have p: "?p = echo_request (host_order env) (ttl_at ?a i)"
      using that by (simp add: s)
    have q: "ttls_set log ! i = ttl_at ?a i" using that by (simp add: t)
    have q2: "ttls_set log ! i = ?a + int i" if "?a + int i \<le> INT_MAX"
      using q ttl_at_plus [OF that] by simp
    from echo_request_fields [of "host_order env" "ttl_at ?a i"]
    have f1: "length ?p = 8" and f2: "?p ! 0 = 8" and f3: "?p ! 1 = 0"
      and f4: "load16 Big_Endian (?p ! 4) (?p ! 5) = 0x1234"
      and f5: "load16 Big_Endian (?p ! 6) (?p ! 7) = word_of_int (ttl_at ?a i)"
      unfolding p by blast+
    have g1: "load16 Big_Endian (?p ! 6) (?p ! 7) = word_of_int (ttls_set log ! i)"
      by (simp only: f5 q)
    have g2: "load16 Big_Endian (?p ! 6) (?p ! 7) = word_of_int (?a + int i)"
      by (simp only: f5 seq_ttl_at)
    have g3: "uint (load16 Big_Endian (?p ! 6) (?p ! 7)) = ttls_set log ! i"
      if "0 \<le> ttls_set log ! i \<and> ttls_set log ! i \<le> 65535"
      unfolding g1 using that by (simp only: uint_seq)
    have g4: "uint (load16 Big_Endian (?p ! 6) (?p ! 7)) = ?a + int i"
      if "0 \<le> ?a + int i \<and> ?a + int i \<le> 65535"
      unfolding g2 using that by (simp only: uint_seq)
    from q q2 f1 f2 f3 f4 g1 g2 g3 g4 show ?thesis by blast
  qed
  ultimately show ?thesis using len by blast
qed

theorem tracer_run_echo_requests_witness:
  "\<exists>ret route log.
     tracer_run reply_env (trace_cfg 1 3) empty_route = Some (ret, route, log)
     \<and> length (sent_packets log) = 2
     \<and> length (ttls_set log) = length (sent_packets log)
     \<and> (\<forall>i < length (sent_packets log).
           ttls_set log ! i = ttl_at (ttl_start (trace_cfg 1 3)) i
           \<and> (ttl_start (trace_cfg 1 3) + int i \<le> INT_MAX
                \<longrightarrow> ttls_set log ! i = ttl_start (trace_cfg 1 3) + int i)
           \<and> length (sent_packets log ! i) = 8
           \<and> sent_packets log ! i ! 0 = 8
           \<and> sent_packets log ! i ! 1 = 0
           \<and> load16 Big_Endian (sent_packets log ! i ! 4) (sent_packets log ! i ! 5) = 0x1234
           \<and> load16 Big_Endian (sent_packets log ! i ! 6) (sent_packets log ! i ! 7)
               = word_of_int (ttls_set log ! i)
           \<and> load16 Big_Endian (sent_packets log ! i ! 6) (sent_packets log ! i ! 7)
               = word_of_int (ttl_start (trace_cfg 1 3) + int i)
           \<and> (0 \<le> ttls_set log ! i \<and> ttls_set log ! i \<le> 65535 \<longrightarrow>
                uint (load16 Big_Endian (sent_packets log ! i ! 6) (sent_packets log ! i ! 7))
                  = ttls_set log ! i)
           \<and> (0 \<le> ttl_start (trace_cfg 1 3) + int i \<and> ttl_start (trace_cfg 1 3) + int i \<le> 65535 \<longrightarrow>
                uint (load16 Big_Endian (sent_packets log ! i ! 6) (sent_packets log ! i ! 7))
                  = ttl_start (trace_cfg 1 3) + int i))"
proof -
  let ?log = "[Socket_Opened 3] @ probe_events reply_env 3 1 @ probe_events reply_env 3 2
                @ [Socket_Closed 3]"
  have h: "tracer_run reply_env (trace_cfg 1 3) empty_route
             = Some (0, \<lparr>rows = Some [lost_hop 1, reply_hop], len = 2, cap = 16\<rparr>, ?log)"
    by (rule reply_run)
  have n: "length (sent_packets ?log) = 2"
    by (simp add: sent_packets_append sent_packets_probe_events)
  show ?thesis
    using h n tracer_run_echo_requests [OF h] by blast
qed

section \<open>Timeouts and send failures\<close>

lemma ttl_next_below: "ttl \<le> ttl_max cfg \<Longrightarrow> ttl_max cfg < INT_MAX \<Longrightarrow> ttl_next ttl = ttl + 1"
  by (simp add: ttl_next_def)

lemma tracer_loop_total:
  assumes "\<forall>n. realloc_ok env n" and "ttl_max cfg < INT_MAX"
  shows "wf_route route \<Longrightarrow> \<exists>res. tracer_loop env cfg sockfd ttl route log = Some res"
proof (induction "nat (ttl_max cfg + 1 - ttl)" arbitrary: ttl route log rule: less_induct)
  case less
  show ?case
  proof (cases "ttl \<le> ttl_max cfg")
    case False
    then show ?thesis by (simp add: tracer_loop.simps [of env cfg sockfd ttl])
  next
    case True
    from tracer_append_total [OF assms(1) less.prems] obtain r
      where r: "tracer_append (realloc_ok env) route (hop_at env ttl) = Some r" by blast
    then have wf: "wf_route r" using tracer_append_wf less.prems by blast
    show ?thesis
    proof (cases "sendto_ret (probe env ttl) < 0 \<or> reply_type env ttl = Some ICMP_ECHOREPLY")
      case True
      with \<open>ttl \<le> ttl_max cfg\<close> r show ?thesis
        by (auto simp add: tracer_loop.simps [of env cfg sockfd ttl] tracer_probe_eq)
    next
      case False
      with True r have p: "tracer_probe env sockfd ttl route = Probe_Next r (probe_events env sockfd ttl)"
        by (simp add: tracer_probe_eq)
      have n: "ttl_next ttl = ttl + 1" using True assms(2) by (rule ttl_next_below)
      have "nat (ttl_max cfg + 1 - (ttl + 1)) < nat (ttl_max cfg + 1 - ttl)" using True by simp
      from less.hyps [OF this wf, of "log @ probe_events env sockfd ttl"]
      show ?thesis using True p n by (simp add: tracer_loop.simps [of env cfg sockfd ttl])
    qed
  qed
qed

lemma tracer_loop_step:
  assumes "\<forall>n. realloc_ok env n" and "wf_route route" and "ttl \<le> ttl_max cfg"
    and "ttl_max cfg < INT_MAX" and "passes env ttl"
  shows "\<exists>r. wf_route r \<and> hops r = hops route @ [hop_at env ttl]
             \<and> tracer_loop env cfg sockfd ttl route log
                 = tracer_loop env cfg sockfd (ttl + 1) r (log @ probe_events env sockfd ttl)"
proof -
  from tracer_append_total [OF assms(1,2)] obtain r
    where r: "tracer_append (realloc_ok env) route (hop_at env ttl) = Some r" by blast
  then have "wf_route r \<and> hops r = hops route @ [hop_at env ttl]"
    using tracer_append_wf assms(2) by blast
  moreover have "tracer_loop env cfg sockfd ttl route log
                   = tracer_loop env cfg sockfd (ttl + 1) r (log @ probe_events env sockfd ttl)"
    using assms(3,5) r ttl_next_below [OF assms(3,4)]
    by (simp add: tracer_loop.simps [of env cfg sockfd ttl] tracer_probe_eq passes_def)
  ultimately show ?thesis by blast
qed

lemma tracer_loop_reach:
  assumes "\<forall>n. realloc_ok env n" and "ttl_max cfg < INT_MAX"
  shows "wf_route route \<Longrightarrow> ttl + int k \<le> ttl_max cfg + 1
         \<Longrightarrow> \<forall>j. ttl \<le> j \<and> j < ttl + int k \<longrightarrow> passes env j
         \<Longrightarrow> \<exists>r. wf_route r \<and> hops r = hops route @ trace_hops env ttl k
                \<and> tracer_loop env cfg sockfd ttl route log
                    = tracer_loop env cfg sockfd (ttl + int k) r
                        (log @ probe_log env sockfd ttl k)"
proof (induction k arbitrary: ttl route log)
  case 0
  then have "wf_route route \<and> hops route = hops route @ trace_hops env ttl 0
             \<and> tracer_loop env cfg sockfd ttl route log
                 = tracer_loop env cfg sockfd (ttl + int 0) route
                     (log @ probe_log env sockfd ttl 0)"
    by (simp add: trace_hops_0 probe_log_0)
  then show ?case by blast
next
  case (Suc k)
  from Suc.prems have t: "ttl \<le> ttl_max cfg" and p: "passes env ttl" by auto
  have n: "ttl_next ttl = ttl + 1" using t assms(2) by (rule ttl_next_below)
  from tracer_loop_step [OF assms(1) Suc.prems(1) t assms(2) p] obtain r1 where
    r1: "wf_route r1" "hops r1 = hops route @ [hop_at env ttl]"
      "tracer_loop env cfg sockfd ttl route log
         = tracer_loop env cfg sockfd (ttl + 1) r1 (log @ probe_events env sockfd ttl)"
    by blast
  have b: "ttl + 1 + int k \<le> ttl_max cfg + 1" using Suc.prems(2) by simp
  have q: "\<forall>j. ttl + 1 \<le> j \<and> j < ttl + 1 + int k \<longrightarrow> passes env j" using Suc.prems(3) by simp
  from Suc.IH [OF r1(1) b q, of "log @ probe_events env sockfd ttl"] obtain r where
    r: "wf_route r" "hops r = hops r1 @ trace_hops env (ttl + 1) k"
      "tracer_loop env cfg sockfd (ttl + 1) r1 (log @ probe_events env sockfd ttl)
         = tracer_loop env cfg sockfd (ttl + 1 + int k) r
             ((log @ probe_events env sockfd ttl) @ probe_log env sockfd (ttl + 1) k)"
    by blast
  have "hops r = hops route @ trace_hops env ttl (Suc k)"
    using r(2) r1(2) by (simp add: trace_hops_Suc n)
  moreover have "tracer_loop env cfg sockfd ttl route log
                   = tracer_loop env cfg sockfd (ttl + int (Suc k)) r
                       (log @ probe_log env sockfd ttl (Suc k))"
  proof -
    have e: "ttl + 1 + int k = ttl + int (Suc k)" by simp
    show ?thesis using r1(3) r(3) unfolding e by (simp add: probe_log_Suc n del: of_nat_Suc)
  qed
  ultimately show ?case using r(1) by blast
qed

lemma tracer_loop_log_prefix:
  assumes "tracer_loop env cfg sockfd ttl route log = Some (ret, route', log')"
    and "wf_route route"
  shows "\<exists>rest. log' = log @ rest"
proof -
  from tracer_loop_post [OF assms] obtain k where
    "loop_post env cfg sockfd ttl route log k ret route' log'" by blast
  then show ?thesis unfolding loop_post_def by auto
qed

lemma tracer_loop_probes_next:
  assumes run: "tracer_loop env cfg sockfd ttl route log = Some (ret, route', log')"
    and wf: "wf_route route" and le: "ttl \<le> ttl_max cfg"
  shows "ttl \<in> set (ttls_set log')"
proof -
  have "\<exists>pre rest. log' = pre @ probe_events env sockfd ttl @ rest"
    using run
  proof (cases rule: tracer_loop_cases)
    case finished
    with le show ?thesis by simp
  next
    case send_failed
    then show ?thesis by auto
  next
    case (reached r)
    then show ?thesis by auto
  next
    case (continued r)
    have "wf_route r" using tracer_append_wf [OF continued(3) wf] by simp
    from tracer_loop_log_prefix [OF continued(5) this] obtain rest
      where "log' = (log @ probe_events env sockfd ttl) @ rest" by blast
    then show ?thesis by auto
  qed
  then obtain pre rest where "log' = pre @ probe_events env sockfd ttl @ rest" by blast
  then show ?thesis by (simp add: ttls_set_append ttls_set_probe_events)
qed

lemma hop_at_timeout: "select_reply (probe env t) = 0 \<Longrightarrow> hop_at env t = lost_hop t"
  by (simp add: hop_at_def)

lemma reply_type_timeout: "select_reply (probe env t) = 0 \<Longrightarrow> reply_type env t = None"
  by (simp add: reply_type_def)

text \<open>
  Claim C5. Take a run that gets to TTL \<open>t\<close>: the target resolves, the raw socket opens, and
  every probe before \<open>t\<close> is sent and is not answered by an Echo Reply (allocation does not
  fail and \<open>ttl_max\<close> is below \<open>INT_MAX\<close>). If the probe at \<open>t\<close> is sent and the wait for its
  reply elapses with no event, the run is not aborted: it returns, its hop list holds at the
  position of \<open>t\<close> the hop with \<open>timeout = true\<close>, address \<open>*\<close>, host \<open>?\<close> and round-trip time
  -1, and when \<open>t < ttl_max\<close> the TTL \<open>t + 1\<close> is probed next. If instead \<open>sendto\<close> fails at
  \<open>t\<close>, the run returns -1 with no hop for \<open>t\<close> or any later TTL.
\<close>

theorem tracer_run_timeout_and_send_failure:
  assumes "getaddrinfo_status env = 0" and "0 \<le> raw_socket_ret env"
    and "\<forall>n. realloc_ok env n" and "ttl_max cfg < INT_MAX"
    and "ttl_start cfg \<le> t" and "t \<le> ttl_max cfg"
    and "\<forall>j. ttl_start cfg \<le> j \<and> j < t \<longrightarrow> passes env j"
  shows "(0 \<le> sendto_ret (probe env t) \<and> select_reply (probe env t) = 0 \<longrightarrow>
           (\<exists>ret route log.
              tracer_run env cfg out0 = Some (ret, route, log)
              \<and> nat (t - ttl_start cfg) < length (hops route)
              \<and> hops route ! nat (t - ttl_start cfg)
                  = \<lparr>hop = t, host = ''?'', ip = ''*'', rtt_ms = -1, timeout = True\<rparr>
              \<and> (t < ttl_max cfg \<longrightarrow> t + 1 \<in> set (ttls_set log))))
         \<and> (sendto_ret (probe env t) < 0 \<longrightarrow>
           (\<exists>route log.
              tracer_run env cfg out0 = Some (-1, route, log)
              \<and> length (hops route) = nat (t - ttl_start cfg)))"
proof -
  let ?a = "ttl_start cfg" and ?fd = "raw_socket_ret env"
  define k where "k = nat (t - ?a)"
  have tk: "?a + int k = t" using assms(5) by (simp add: k_def)
  have run0: "tracer_run env cfg out0
                = tracer_loop env cfg ?fd ?a empty_route [Socket_Opened ?fd]"
    using assms(1,2) by (simp add: tracer_run_eq)
  have b: "?a + int k \<le> ttl_max cfg + 1" using tk assms(6) by simp
  have q: "\<forall>j. ?a \<le> j \<and> j < ?a + int k \<longrightarrow> passes env j" using assms(7) tk by simp
  from tracer_loop_reach [OF assms(3,4) wf_empty_route b q, of ?fd "[Socket_Opened ?fd]"]
  obtain r where r: "wf_route r" "hops r = trace_hops env ?a k"
    and reach: "tracer_loop env cfg ?fd ?a empty_route [Socket_Opened ?fd]
                  = tracer_loop env cfg ?fd t r ([Socket_Opened ?fd] @ probe_log env ?fd ?a k)"
    by (auto simp add: hops_empty_route tk)
  let ?log = "[Socket_Opened ?fd] @ probe_log env ?fd ?a k"
  have lr: "length (hops r) = k" by (simp add: r(2) length_trace_hops)
  have part1: "\<exists>ret route log.
              tracer_run env cfg out0 = Some (ret, route, log)
              \<and> nat (t - ?a) < length (hops route)
              \<and> hops route ! nat (t - ?a)
                  = \<lparr>hop = t, host = ''?'', ip = ''*'', rtt_ms = -1, timeout = True\<rparr>
              \<and> (t < ttl_max cfg \<longrightarrow> t + 1 \<in> set (ttls_set log))"
    if s: "0 \<le> sendto_ret (probe env t)" and w: "select_reply (probe env t) = 0"
  proof -
    have p: "passes env t" using s w by (simp add: passes_def reply_type_timeout)
    from tracer_loop_step [OF assms(3) r(1) assms(6) assms(4) p, of ?fd ?log]
    obtain r1 where r1: "wf_route r1" "hops r1 = hops r @ [hop_at env t]"
      and step: "tracer_loop env cfg ?fd t r ?log
                   = tracer_loop env cfg ?fd (t + 1) r1 (?log @ probe_events env ?fd t)"
      by blast
    from tracer_loop_total [OF assms(3,4) r1(1)]
    obtain ret route log where
      fin: "tracer_loop env cfg ?fd (t + 1) r1 (?log @ probe_events env ?fd t)
              = Some (ret, route, log)"
      by (metis prod_cases3)
    from tracer_loop_post [OF fin r1(1)] obtain k2 where
      "hops route = hops r1 @ trace_hops env (t + 1) k2"
      unfolding loop_post_def by blast
    then have h: "hops route = hops r @ hop_at env t # trace_hops env (t + 1) k2"
      by (simp add: r1(2))
    have c1: "tracer_run env cfg out0 = Some (ret, route, log)"
      by (simp only: run0 reach step fin)
    have c2: "nat (t - ?a) < length (hops route)" using h lr by (simp add: k_def)
    have "hops route ! k = hop_at env t" using h lr by (simp add: nth_append)
    then have c3: "hops route ! nat (t - ?a)
                     = \<lparr>hop = t, host = ''?'', ip = ''*'', rtt_ms = -1, timeout = True\<rparr>"
      using w by (simp add: k_def hop_at_timeout lost_hop_def)
    have c4: "t + 1 \<in> set (ttls_set log)" if "t < ttl_max cfg"
      using tracer_loop_probes_next [OF fin r1(1)] that by simp
    from c1 c2 c3 c4 show ?thesis by blast
  qed
  have part2: "\<exists>route log. tracer_run env cfg out0 = Some (-1, route, log)
                 \<and> length (hops route) = nat (t - ?a)"
    if s: "sendto_ret (probe env t) < 0"
  proof -
    have "tracer_loop env cfg ?fd t r ?log
            = Some (-1, r, ?log @ probe_events env ?fd t
                      @ [Perror ''sendto'' (sendto_errno (probe env t)), Socket_Closed ?fd])"
      using s assms(6) by (simp add: tracer_loop.simps [of env cfg ?fd t] tracer_probe_eq)
    then have "tracer_run env cfg out0
                 = Some (-1, r, ?log @ probe_events env ?fd t
                      @ [Perror ''sendto'' (sendto_errno (probe env t)), Socket_Closed ?fd])"
      by (simp only: run0 reach)
    then show ?thesis using lr by (auto simp add: k_def)
  qed
  from part1 part2 show ?thesis by blast
qed

theorem tracer_run_timeout_and_send_failure_witness:
  "0 \<le> sendto_ret (probe reply_env 1) \<and> select_reply (probe reply_env 1) = 0
   \<and> (\<exists>ret route log.
         tracer_run reply_env (trace_cfg 1 3) empty_route = Some (ret, route, log)
         \<and> nat (1 - ttl_start (trace_cfg 1 3)) < length (hops route)
         \<and> hops route ! nat (1 - ttl_start (trace_cfg 1 3))
             = \<lparr>hop = 1, host = ''?'', ip = ''*'', rtt_ms = -1, timeout = True\<rparr>
         \<and> 1 + 1 \<in> set (ttls_set log))
   \<and> passes send_fail_env 1 \<and> sendto_ret (probe send_fail_env 2) < 0
   \<and> (\<exists>route log.
         tracer_run send_fail_env (trace_cfg 1 3) empty_route = Some (-1, route, log)
         \<and> length (hops route) = nat (2 - ttl_start (trace_cfg 1 3)))"
proof -
  have cfg: "ttl_max (trace_cfg 1 3) < INT_MAX" "ttl_start (trace_cfg 1 3) \<le> 1"
    "1 \<le> ttl_max (trace_cfg 1 3)" "ttl_start (trace_cfg 1 3) \<le> 2" "2 \<le> ttl_max (trace_cfg 1 3)"
    "(1::int) < ttl_max (trace_cfg 1 3)"
    by (simp_all add: trace_cfg_def INT_MAX_def)
  have r: "getaddrinfo_status reply_env = 0" "0 \<le> raw_socket_ret reply_env"
    "\<forall>n. realloc_ok reply_env n"
    by (simp_all add: reply_env_calls)
  have r7: "\<forall>j. ttl_start (trace_cfg 1 3) \<le> j \<and> j < 1 \<longrightarrow> passes reply_env j"
    by (auto simp add: trace_cfg_def)
  have r8: "0 \<le> sendto_ret (probe reply_env 1) \<and> select_reply (probe reply_env 1) = 0"
    by (simp add: reply_env_def quiet_env_def idle_probe_def)
  have f: "getaddrinfo_status send_fail_env = 0" "0 \<le> raw_socket_ret send_fail_env"
    "\<forall>n. realloc_ok send_fail_env n"
    by (simp_all add: send_fail_env_def quiet_env_def)
  have f1: "passes send_fail_env 1"
    by (simp add: passes_def reply_type_def send_fail_env_def quiet_env_def idle_probe_def)
  have f7: "\<forall>j. ttl_start (trace_cfg 1 3) \<le> j \<and> j < 2 \<longrightarrow> passes send_fail_env j"
  proof (intro allI impI)
    fix j :: int assume "ttl_start (trace_cfg 1 3) \<le> j \<and> j < 2"
    then have "j = 1" by (simp add: trace_cfg_def)
    with f1 show "passes send_fail_env j" by simp
  qed
  have f8: "sendto_ret (probe send_fail_env 2) < 0"
    by (simp add: send_fail_env_def quiet_env_def idle_probe_def)
  show ?thesis
    using r8 f1 f8 cfg(6)
      tracer_run_timeout_and_send_failure [OF r(1,2,3) cfg(1,2,3) r7, of empty_route]
      tracer_run_timeout_and_send_failure [OF f(1,2,3) cfg(1,4,5) f7, of empty_route]
    by blast
qed

end
